theory Spec2Isabelle
  imports Main "HOL-Library.AList"
begin

section \<open>Swarm mesh core: peer table\<close>

text \<open>
  The peer table of \<^verbatim>\<open>peer-table.ts\<close> keeps a JavaScript \<^verbatim>\<open>Map<string, PeerEntry>\<close>.
  A JavaScript Map iterates in insertion order, \<^verbatim>\<open>set\<close> on a present key replaces the
  value in place and on an absent key appends, \<^verbatim>\<open>delete\<close> removes the key. It is modelled
  as an association list: \<^const>\<open>map_of\<close> is \<^verbatim>\<open>get\<close>, \<^const>\<open>AList.update\<close> is \<^verbatim>\<open>set\<close>,
  \<^const>\<open>AList.delete\<close> is \<^verbatim>\<open>delete\<close>. A Map never holds a key twice; that is the
  predicate \<open>wf_map\<close> below.

  Instants are milliseconds since the epoch (\<^verbatim>\<open>Date.now()\<close>); the source stores them as
  ISO strings (\<^verbatim>\<open>new Date().toISOString()\<close>) and reads them back with
  \<^verbatim>\<open>new Date(s).getTime()\<close>, which gives the same millisecond count. The clock is a
  parameter \<open>now\<close> of every operation that reads it. Numbers are integer-valued.
\<close>

record SwarmNodeIdentity =
  node_id :: string
  display_name :: string
  api_url :: string
  capabilities :: "string list"
  version :: string

datatype PeerStatus = Active | Suspected | Unreachable | Left

record PeerEntry =
  identity :: SwarmNodeIdentity
  status :: PeerStatus
  last_heartbeat_at :: int
  last_latency_ms :: int
  consecutive_failures :: int
  joined_at :: int

record SweepThresholds =
  suspected_after_ms :: int
  unreachable_after_ms :: int
  evict_after_ms :: int

record PeerTable =
  peers :: "(string \<times> PeerEntry) list"
  maxPeers :: int

datatype error =
    PeerTableFull int  \<comment> \<open>\<^verbatim>\<open>Peer table full (max N)\<close>\<close>
  | NoSuitablePeers  \<comment> \<open>\<^verbatim>\<open>No suitable peers available for task distribution\<close>\<close>
  | PeerRejected string "string option"  \<comment> \<open>\<^verbatim>\<open>Peer ID rejected: REASON\<close>\<close>
  | DelegationTimedOut string int  \<comment> \<open>\<^verbatim>\<open>Delegation to ID timed out after Nms\<close>\<close>
  | DelegationCancelled  \<comment> \<open>\<^verbatim>\<open>Delegation cancelled\<close>\<close>
  | FailedToDistribute  \<comment> \<open>\<^verbatim>\<open>Failed to distribute task to any peer\<close>\<close>
  | Thrown string  \<comment> \<open>an error raised by a collaborator\<close>

definition wf_map :: "(string \<times> 'v) list \<Rightarrow> bool" where
  "wf_map m = distinct (map fst m)"

definition new_PeerTable :: "int \<Rightarrow> PeerTable" where
  "new_PeerTable n = \<lparr>peers = [], maxPeers = n\<rparr>"

definition size_peers :: "PeerTable \<Rightarrow> int" where
  "size_peers t = int (length (peers t))"

definition get :: "PeerTable \<Rightarrow> string \<Rightarrow> PeerEntry option" where
  "get t nodeId = map_of (peers t) nodeId"

definition add :: "PeerTable \<Rightarrow> SwarmNodeIdentity \<Rightarrow> int \<Rightarrow> PeerTable \<times> (error + PeerEntry)" where
  "add t ident now =
     (case map_of (peers t) (node_id ident) of
        Some existing \<Rightarrow>
          (let e = existing\<lparr>identity := ident, status := Active,
                            last_heartbeat_at := now, consecutive_failures := 0\<rparr>
           in (t\<lparr>peers := AList.update (node_id ident) e (peers t)\<rparr>, Inr e))
      | None \<Rightarrow>
          if size_peers t \<ge> maxPeers t then (t, Inl (PeerTableFull (maxPeers t)))
          else
            (let entry = \<lparr>identity = ident, status = Active, last_heartbeat_at = now,
                          last_latency_ms = 0, consecutive_failures = 0, joined_at = now\<rparr>
             in (t\<lparr>peers := AList.update (node_id ident) entry (peers t)\<rparr>, Inr entry)))"

definition remove_peer :: "PeerTable \<Rightarrow> string \<Rightarrow> PeerTable \<times> bool" where
  "remove_peer t nodeId =
     (t\<lparr>peers := AList.delete nodeId (peers t)\<rparr>, map_of (peers t) nodeId \<noteq> None)"

definition getAll :: "PeerTable \<Rightarrow> PeerEntry list" where
  "getAll t = map snd (peers t)"

definition getActive :: "PeerTable \<Rightarrow> PeerEntry list" where
  "getActive t = filter (\<lambda>p. status p = Active) (map snd (peers t))"

definition getByCapability :: "PeerTable \<Rightarrow> string \<Rightarrow> PeerEntry list" where
  "getByCapability t capability =
     filter (\<lambda>p. capability \<in> set (capabilities (identity p))) (getActive t)"

definition getByStatus :: "PeerTable \<Rightarrow> PeerStatus \<Rightarrow> PeerEntry list" where
  "getByStatus t s = filter (\<lambda>p. status p = s) (map snd (peers t))"

definition recordHeartbeat :: "PeerTable \<Rightarrow> string \<Rightarrow> int \<Rightarrow> int \<Rightarrow> PeerTable \<times> bool" where
  "recordHeartbeat t nodeId latencyMs now =
     (case map_of (peers t) nodeId of
        None \<Rightarrow> (t, False)
      | Some peer \<Rightarrow>
          (t\<lparr>peers := AList.update nodeId
                (peer\<lparr>status := Active, last_heartbeat_at := now,
                      last_latency_ms := latencyMs, consecutive_failures := 0\<rparr>) (peers t)\<rparr>,
           True))"

text \<open>
  \<^verbatim>\<open>peer.consecutive_failures++\<close> is an addition of IEEE doubles: the new count is the
  double nearest to the old count plus one, a tie going to the even mantissa. A double has
  a mantissa of 53 bits, so an integer below \<open>2 ^ 53 = 9007199254740992\<close> in magnitude is a
  double, and from there on the doubles are the multiples of \<open>ulp\<close>, the power of two that
  leaves 53 bits. \<open>round_double x\<close> is the double nearest to the integer \<open>x\<close>.
\<close>

function ulp :: "int \<Rightarrow> int" where
  "ulp a = (if a < 9007199254740992 then 1 else 2 * ulp (a div 2))"
  by pat_completeness auto
termination
  by (relation "measure nat") simp_all

declare ulp.simps [simp del]

definition round_double :: "int \<Rightarrow> int" where
  "round_double x =
     (let a = \<bar>x\<bar>; u = ulp a; q = a div u; r = a mod u;
          m = (if 2 * r > u \<or> (2 * r = u \<and> odd q) then q + 1 else q)
      in sgn x * (m * u))"

definition js_increment :: "int \<Rightarrow> int" where
  "js_increment c = round_double (c + 1)"

definition recordFailure :: "PeerTable \<Rightarrow> string \<Rightarrow> PeerTable \<times> int" where
  "recordFailure t nodeId =
     (case map_of (peers t) nodeId of
        None \<Rightarrow> (t, - 1)
      | Some peer \<Rightarrow>
          (let peer' = peer\<lparr>consecutive_failures := js_increment (consecutive_failures peer)\<rparr>
           in (t\<lparr>peers := AList.update nodeId peer' (peers t)\<rparr>, consecutive_failures peer')))"

definition markLeft :: "PeerTable \<Rightarrow> string \<Rightarrow> PeerTable \<times> bool" where
  "markLeft t nodeId =
     (case map_of (peers t) nodeId of
        None \<Rightarrow> (t, False)
      | Some peer \<Rightarrow> (t\<lparr>peers := AList.update nodeId (peer\<lparr>status := Left\<rparr>) (peers t)\<rparr>, True))"

text \<open>
  \<^verbatim>\<open>sweep\<close> returns three id lists. The loop \<^verbatim>\<open>for (const [nodeId, peer] of this.peers)\<close>
  walks the entries in order; the body deletes or rewrites only the entry it is at, so the
  entries still to come are those of the table at the start. The loop state is the Map and
  the three lists.
\<close>

record SweepResult =
  suspected :: "string list"
  unreachable :: "string list"
  evicted :: "string list"

fun sweep_loop ::
  "SweepThresholds \<Rightarrow> int \<Rightarrow> (string \<times> PeerEntry) list \<Rightarrow>
   (string \<times> PeerEntry) list \<times> SweepResult \<Rightarrow> (string \<times> PeerEntry) list \<times> SweepResult" where
  "sweep_loop th now [] (m, r) = (m, r)"
| "sweep_loop th now ((nodeId, peer) # rest) (m, r) =
     (if status peer = Left then sweep_loop th now rest (m, r)
      else
        (let age = now - last_heartbeat_at peer in
         if age \<ge> evict_after_ms th then
           sweep_loop th now rest (AList.delete nodeId m, r\<lparr>evicted := evicted r @ [nodeId]\<rparr>)
         else if age \<ge> unreachable_after_ms th \<and> status peer \<noteq> Unreachable then
           sweep_loop th now rest
             (AList.update nodeId (peer\<lparr>status := Unreachable\<rparr>) m,
              r\<lparr>unreachable := unreachable r @ [nodeId]\<rparr>)
         else if age \<ge> suspected_after_ms th \<and> status peer = Active then
           sweep_loop th now rest
             (AList.update nodeId (peer\<lparr>status := Suspected\<rparr>) m,
              r\<lparr>suspected := suspected r @ [nodeId]\<rparr>)
         else sweep_loop th now rest (m, r)))"

definition sweep :: "PeerTable \<Rightarrow> SweepThresholds \<Rightarrow> int \<Rightarrow> PeerTable \<times> SweepResult" where
  "sweep t th now =
     (let (m, r) = sweep_loop th now (peers t)
                     (peers t, \<lparr>suspected = [], unreachable = [], evicted = []\<rparr>)
      in (t\<lparr>peers := m\<rparr>, r))"

definition clear :: "PeerTable \<Rightarrow> PeerTable" where
  "clear t = t\<lparr>peers := []\<rparr>"

text \<open>
  The decision the loop body takes for one entry, and what the entry is afterwards
  (\<open>None\<close>: deleted). They serve to state what the loop computes as a whole.
\<close>

datatype SweepAction = Skip | Evict | MarkUnreachable | MarkSuspected

definition sweep_action :: "SweepThresholds \<Rightarrow> int \<Rightarrow> PeerEntry \<Rightarrow> SweepAction" where
  "sweep_action th now peer =
     (if status peer = Left then Skip
      else if now - last_heartbeat_at peer \<ge> evict_after_ms th then Evict
      else if now - last_heartbeat_at peer \<ge> unreachable_after_ms th \<and> status peer \<noteq> Unreachable
        then MarkUnreachable
      else if now - last_heartbeat_at peer \<ge> suspected_after_ms th \<and> status peer = Active
        then MarkSuspected
      else Skip)"

fun after_action :: "SweepAction \<Rightarrow> PeerEntry \<Rightarrow> PeerEntry option" where
  "after_action Skip p = Some p"
| "after_action Evict p = None"
| "after_action MarkUnreachable p = Some (p\<lparr>status := Unreachable\<rparr>)"
| "after_action MarkSuspected p = Some (p\<lparr>status := Suspected\<rparr>)"

definition ids_with :: "SweepThresholds \<Rightarrow> int \<Rightarrow> SweepAction \<Rightarrow> (string \<times> PeerEntry) list \<Rightarrow> string list" where
  "ids_with th now a es = map fst (filter (\<lambda>e. sweep_action th now (snd e) = a) es)"

definition swept :: "SweepThresholds \<Rightarrow> int \<Rightarrow> (string \<times> PeerEntry) list \<Rightarrow> (string \<times> PeerEntry) list" where
  "swept th now es =
     List.map_filter (\<lambda>e. map_option (Pair (fst e)) (after_action (sweep_action th now (snd e)) (snd e))) es"

text \<open>
  Runs of table operations, to state what a sequence of calls does to one peer.
  \<open>stage\<close> orders the life of a peer that has not left: active, suspected, unreachable,
  evicted (absent from the table). \<open>leaves_alone k\<close> holds of the operations that are
  neither \<^verbatim>\<open>add\<close> nor \<^verbatim>\<open>recordHeartbeat\<close> nor \<^verbatim>\<open>remove\<close> nor \<^verbatim>\<open>markLeft\<close> for peer
  \<open>k\<close>.
\<close>

fun stage :: "PeerEntry option \<Rightarrow> nat" where
  "stage None = 3"
| "stage (Some p) = (case status p of Active \<Rightarrow> 0 | Suspected \<Rightarrow> 1 | Unreachable \<Rightarrow> 2 | Left \<Rightarrow> 4)"

datatype TableOp =
    Sweep SweepThresholds int
  | Add SwarmNodeIdentity int
  | Remove string
  | RecordHeartbeat string int int
  | RecordFailure string
  | MarkLeft string

fun apply_op :: "PeerTable \<Rightarrow> TableOp \<Rightarrow> PeerTable" where
  "apply_op t (Sweep th now) = fst (sweep t th now)"
| "apply_op t (Add ident now) = fst (add t ident now)"
| "apply_op t (Remove nodeId) = fst (remove_peer t nodeId)"
| "apply_op t (RecordHeartbeat nodeId latencyMs now) = fst (recordHeartbeat t nodeId latencyMs now)"
| "apply_op t (RecordFailure nodeId) = fst (recordFailure t nodeId)"
| "apply_op t (MarkLeft nodeId) = fst (markLeft t nodeId)"

definition run_ops :: "PeerTable \<Rightarrow> TableOp list \<Rightarrow> PeerTable" where
  "run_ops t ops = foldl apply_op t ops"

fun leaves_alone :: "string \<Rightarrow> TableOp \<Rightarrow> bool" where
  "leaves_alone k (Sweep th now) = True"
| "leaves_alone k (Add ident now) = (node_id ident \<noteq> k)"
| "leaves_alone k (Remove nodeId) = (nodeId \<noteq> k)"
| "leaves_alone k (RecordHeartbeat nodeId latencyMs now) = (nodeId \<noteq> k)"
| "leaves_alone k (RecordFailure nodeId) = True"
| "leaves_alone k (MarkLeft nodeId) = (nodeId \<noteq> k)"

definition is_left :: "PeerEntry option \<Rightarrow> bool" where
  "is_left e = (case e of None \<Rightarrow> False | Some p \<Rightarrow> status p = Left)"

section \<open>Swarm mesh core: work distributor\<close>

text \<open>
  \<^verbatim>\<open>work-distributor.ts\<close>. The distributor keeps a Map from task id to
  \<^verbatim>\<open>ActiveDelegation\<close> and a round-robin index. A delegation holds the \<^verbatim>\<open>resolve\<close> and
  \<^verbatim>\<open>reject\<close> functions of one promise and the handle of one \<^verbatim>\<open>setTimeout\<close> timer; both
  are objects shared with the event loop, so the state carries a store of promises and a
  store of timers, addressed by index, and a delegation holds the two indices.

  A promise is settled once: \<^verbatim>\<open>resolve\<close> and \<^verbatim>\<open>reject\<close> on a settled promise do nothing.
  \<^verbatim>\<open>clearTimeout\<close> disarms an armed timer and does nothing otherwise; a timer runs its
  callback only while armed. The numeric budgets of the constraints and the findings of a
  result are carried through unread.
\<close>

datatype DistributionStrategy = round_robin | capability_match

record SwarmTaskConstraints =
  tool_allowlist :: "string list option"
  max_tokens :: "int option"
  max_cost_usd :: "int option"
  max_duration_ms :: "int option"

datatype TaskStatus = completed | failed | aborted

record SwarmTaskResult =
  task_id :: string
  peer_node_id :: string
  peer_session_id :: string
  result_status :: TaskStatus
  findings :: "string list"
  tokens_used :: int
  cost_usd :: int
  duration_ms :: int

record ActiveDelegation =
  d_task_id :: string
  d_peer_node_id :: string
  d_correlation_id :: string
  sent_at :: int
  timeout_ms :: int
  promise :: nat  \<comment> \<open>the promise whose \<^verbatim>\<open>resolve\<close> and \<^verbatim>\<open>reject\<close> the delegation holds\<close>
  timer :: nat

datatype promise_state = Pending | Fulfilled SwarmTaskResult | Rejected error

datatype timer_state = Armed | Cleared | Fired

text \<open>
  The callback of the expiry timer closes over the task id, the \<^verbatim>\<open>reject\<close> of the promise
  and the peer.
\<close>

record Timer =
  t_state :: timer_state
  t_taskId :: string
  t_promise :: nat
  t_peer :: string

record WorkDistributor =
  strategy :: DistributionStrategy
  delegationTimeoutMs :: int
  maxRetries :: int
  activeDelegations :: "(string \<times> ActiveDelegation) list"
  roundRobinIndex :: nat
  promises :: "promise_state list"
  timers :: "Timer list"

definition new_WorkDistributor :: "DistributionStrategy \<Rightarrow> int \<Rightarrow> int \<Rightarrow> WorkDistributor" where
  "new_WorkDistributor s timeout retries =
     \<lparr>strategy = s, delegationTimeoutMs = timeout, maxRetries = retries,
      activeDelegations = [], roundRobinIndex = 0, promises = [], timers = []\<rparr>"

definition resolve_promise :: "nat \<Rightarrow> SwarmTaskResult \<Rightarrow> promise_state list \<Rightarrow> promise_state list" where
  "resolve_promise p v ps = (if p < length ps \<and> ps ! p = Pending then ps[p := Fulfilled v] else ps)"

definition reject_promise :: "nat \<Rightarrow> error \<Rightarrow> promise_state list \<Rightarrow> promise_state list" where
  "reject_promise p e ps = (if p < length ps \<and> ps ! p = Pending then ps[p := Rejected e] else ps)"

definition clearTimeout :: "nat \<Rightarrow> Timer list \<Rightarrow> Timer list" where
  "clearTimeout tm ts =
     (if tm < length ts \<and> t_state (ts ! tm) = Armed then ts[tm := (ts ! tm)\<lparr>t_state := Cleared\<rparr>]
      else ts)"

definition findDelegationByTaskId :: "WorkDistributor \<Rightarrow> string \<Rightarrow> ActiveDelegation option" where
  "findDelegationByTaskId d taskId = map_of (activeDelegations d) taskId"

definition resolveTask :: "WorkDistributor \<Rightarrow> SwarmTaskResult \<Rightarrow> WorkDistributor \<times> bool" where
  "resolveTask d result =
     (case findDelegationByTaskId d (task_id result) of
        None \<Rightarrow> (d, False)
      | Some delegation \<Rightarrow>
          (d\<lparr>timers := clearTimeout (timer delegation) (timers d),
             activeDelegations := AList.delete (d_task_id delegation) (activeDelegations d),
             promises := resolve_promise (promise delegation) result (promises d)\<rparr>,
           True))"

definition activeCount :: "WorkDistributor \<Rightarrow> int" where
  "activeCount d = int (length (activeDelegations d))"

fun cancel_loop ::
  "(string \<times> ActiveDelegation) list \<Rightarrow> Timer list \<times> promise_state list \<Rightarrow>
   Timer list \<times> promise_state list" where
  "cancel_loop [] (ts, ps) = (ts, ps)"
| "cancel_loop ((k, delegation) # rest) (ts, ps) =
     cancel_loop rest
       (clearTimeout (timer delegation) ts,
        reject_promise (promise delegation) DelegationCancelled ps)"

definition cancelAll :: "WorkDistributor \<Rightarrow> WorkDistributor" where
  "cancelAll d =
     (let (ts, ps) = cancel_loop (activeDelegations d) (timers d, promises d)
      in d\<lparr>timers := ts, promises := ps, activeDelegations := []\<rparr>)"

text \<open>
  \<^verbatim>\<open>selectPeers\<close> reads \<^verbatim>\<open>this.meshManager.getActivePeers()\<close>; the list it returns is the
  parameter \<open>actives\<close>. \<^verbatim>\<open>constraints?.tool_allowlist?.length\<close> is truthy when the
  constraints and the allowlist are given and the allowlist is not empty.
\<close>

definition has_allowlist :: "SwarmTaskConstraints option \<Rightarrow> bool" where
  "has_allowlist constraints =
     (case constraints of
        None \<Rightarrow> False
      | Some c \<Rightarrow> (case tool_allowlist c of None \<Rightarrow> False | Some l \<Rightarrow> length l \<noteq> 0))"

definition required_tools :: "SwarmTaskConstraints option \<Rightarrow> string list" where
  "required_tools constraints =
     (case constraints of
        None \<Rightarrow> []
      | Some c \<Rightarrow> (case tool_allowlist c of None \<Rightarrow> [] | Some l \<Rightarrow> l))"

definition selectPeers ::
  "WorkDistributor \<Rightarrow> SwarmTaskConstraints option \<Rightarrow> PeerEntry list \<Rightarrow>
   WorkDistributor \<times> PeerEntry list" where
  "selectPeers d constraints actives =
     (let candidates =
        (if strategy d = capability_match \<and> has_allowlist constraints then
           filter (\<lambda>peer. list_ex (\<lambda>tool. tool \<in> set (capabilities (identity peer)))
                            (required_tools constraints)) actives
         else actives)
      in if strategy d = round_robin \<and> length candidates > 0 then
           (d\<lparr>roundRobinIndex := (roundRobinIndex d + 1) mod length candidates\<rparr>,
            map (\<lambda>i. candidates ! ((roundRobinIndex d + i) mod length candidates))
                [0..<length candidates])
         else (d, candidates))"

text \<open>
  The expiry callback of \<^verbatim>\<open>delegateToPeer\<close>: it deletes the entry of its task id and rejects
  its promise with the timeout error.
\<close>

definition fire_timer :: "WorkDistributor \<Rightarrow> nat \<Rightarrow> WorkDistributor" where
  "fire_timer d tm =
     (if tm < length (timers d) \<and> t_state (timers d ! tm) = Armed then
        (let t = timers d ! tm in
         d\<lparr>timers := (timers d)[tm := t\<lparr>t_state := Fired\<rparr>],
           activeDelegations := AList.delete (t_taskId t) (activeDelegations d),
           promises := reject_promise (t_promise t)
                         (DelegationTimedOut (t_peer t) (delegationTimeoutMs d)) (promises d)\<rparr>)
      else d)"

text \<open>
  The body of the promise executor in \<^verbatim>\<open>delegateToPeer\<close>, which runs at once: a new
  promise, a new armed timer, and the delegation stored under the task id. It returns the
  indices of the promise and of the timer.
\<close>

definition register_delegation ::
  "WorkDistributor \<Rightarrow> PeerEntry \<Rightarrow> string \<Rightarrow> string \<Rightarrow> int \<Rightarrow> WorkDistributor \<times> nat \<times> nat" where
  "register_delegation d peer taskId uuid now =
     (let p = length (promises d);
          tm = length (timers d);
          delegation = \<lparr>d_task_id = taskId, d_peer_node_id = node_id (identity peer),
                        d_correlation_id = uuid, sent_at = now,
                        timeout_ms = delegationTimeoutMs d, promise = p, timer = tm\<rparr>
      in (d\<lparr>promises := promises d @ [Pending],
            timers := timers d @ [\<lparr>t_state = Armed, t_taskId = taskId, t_promise = p,
                                   t_peer = node_id (identity peer)\<rparr>],
            activeDelegations := AList.update taskId delegation (activeDelegations d)\<rparr>,
          p, tm))"

text \<open>
  What can happen while \<^verbatim>\<open>distribute\<close> awaits a delegation promise: a result is posted
  (\<^verbatim>\<open>resolveTask\<close>), some expiry timer fires, or \<^verbatim>\<open>cancelAll\<close> is called. The await ends
  as soon as the promise is settled. When nothing settles it the delegation's own timer
  fires after \<open>delegationTimeoutMs\<close>. The state returned is \<open>Pending\<close> only if the
  promise can never settle.
\<close>

datatype Event = ResultPosted SwarmTaskResult | TimerFired nat | CancelAllCalled

fun apply_event :: "WorkDistributor \<Rightarrow> Event \<Rightarrow> WorkDistributor" where
  "apply_event d (ResultPosted r) = fst (resolveTask d r)"
| "apply_event d (TimerFired tm) = fire_timer d tm"
| "apply_event d CancelAllCalled = cancelAll d"

fun await_promise ::
  "WorkDistributor \<Rightarrow> nat \<Rightarrow> nat \<Rightarrow> Event list \<Rightarrow> WorkDistributor \<times> promise_state" where
  "await_promise d p tm [] =
     (if promises d ! p \<noteq> Pending then (d, promises d ! p)
      else (fire_timer d tm, promises (fire_timer d tm) ! p))"
| "await_promise d p tm (e # es) =
     (if promises d ! p \<noteq> Pending then (d, promises d ! p)
      else await_promise (apply_event d e) p tm es)"

text \<open>
  \<^verbatim>\<open>meshManager.delegateTask\<close> belongs to the mesh manager and the network: it either
  throws or returns \<^verbatim>\<open>{accepted, reason?, taskId}\<close>. One attempt of \<^verbatim>\<open>distribute\<close> sees
  the reply to its call, a fresh uuid, the clock, and the events that happen while it
  awaits.
\<close>

record DelegateResult =
  accepted :: bool
  reason :: "string option"
  taskId :: string

record AttemptEnv =
  delegateTask ::
    "string \<Rightarrow> string \<Rightarrow> string \<Rightarrow> SwarmTaskConstraints option \<Rightarrow> error + DelegateResult"
  uuid :: string
  clock :: int
  events :: "Event list"

text \<open>
  An attempt ends with a thrown error (\<open>Inl\<close>) or a result (\<open>Inr\<close>); \<open>None\<close> is an await
  that never ends.
\<close>

type_synonym outcome = "(error + SwarmTaskResult) option"

definition delegateToPeer ::
  "WorkDistributor \<Rightarrow> PeerEntry \<Rightarrow> string \<Rightarrow> string \<Rightarrow> SwarmTaskConstraints option \<Rightarrow>
   AttemptEnv \<Rightarrow> WorkDistributor \<times> outcome" where
  "delegateToPeer d peer taskText sessionId constraints env =
     (case delegateTask env (node_id (identity peer)) taskText sessionId constraints of
        Inl e \<Rightarrow> (d, Some (Inl e))
      | Inr delegateResult \<Rightarrow>
          if \<not> accepted delegateResult then
            (d, Some (Inl (PeerRejected (node_id (identity peer)) (reason delegateResult))))
          else
            (let (d1, p, tm) =
                   register_delegation d peer (taskId delegateResult) (uuid env) (clock env);
                 (d2, st) = await_promise d1 p tm (events env)
             in (d2, case st of
                       Pending \<Rightarrow> None
                     | Fulfilled r \<Rightarrow> Some (Inr r)
                     | Rejected e \<Rightarrow> Some (Inl e))))"

text \<open>
  The loop of \<^verbatim>\<open>distribute\<close>. Besides the state and the outcome it returns the trace of
  its attempts: the peer each call of \<^verbatim>\<open>delegateToPeer\<close> went to, and how the call ended.
\<close>

definition or_else :: "error option \<Rightarrow> error \<Rightarrow> error" where
  "or_else lastError e = (case lastError of None \<Rightarrow> e | Some l \<Rightarrow> l)"

fun distribute_loop ::
  "WorkDistributor \<Rightarrow> PeerEntry list \<Rightarrow> string \<Rightarrow> string \<Rightarrow> SwarmTaskConstraints option \<Rightarrow>
   (nat \<Rightarrow> AttemptEnv) \<Rightarrow> nat \<Rightarrow> error option \<Rightarrow> (string \<times> outcome) list \<Rightarrow>
   WorkDistributor \<times> (string \<times> outcome) list \<times> outcome" where
  "distribute_loop d [] taskText sessionId constraints env attempts lastError trace =
     (d, trace, Some (Inl (or_else lastError FailedToDistribute)))"
| "distribute_loop d (peer # rest) taskText sessionId constraints env attempts lastError trace =
     (if int attempts \<ge> maxRetries d + 1 then
        (d, trace, Some (Inl (or_else lastError FailedToDistribute)))
      else
        (case delegateToPeer d peer taskText sessionId constraints (env attempts) of
           (d', Some (Inl err)) \<Rightarrow>
             distribute_loop d' rest taskText sessionId constraints env (attempts + 1) (Some err)
               (trace @ [(node_id (identity peer), Some (Inl err))])
         | (d', res) \<Rightarrow> (d', trace @ [(node_id (identity peer), res)], res)))"

definition distribute ::
  "WorkDistributor \<Rightarrow> string \<Rightarrow> string \<Rightarrow> SwarmTaskConstraints option \<Rightarrow> PeerEntry list \<Rightarrow>
   (nat \<Rightarrow> AttemptEnv) \<Rightarrow> WorkDistributor \<times> (string \<times> outcome) list \<times> outcome" where
  "distribute d taskText sessionId constraints actives env =
     (let (d1, candidates) = selectPeers d constraints actives
      in if length candidates = 0 then (d1, [], Some (Inl NoSuitablePeers))
         else distribute_loop d1 candidates taskText sessionId constraints env 0 None [])"

text \<open>
  The invariant of the distributor: the Map has no key twice; every delegation is stored
  under its own task id, holds a pending promise and an armed timer of its own, and the
  timer's callback refers to that task id and promise; every pending promise and every
  armed timer belongs to a stored delegation.
\<close>

definition wf_delegation :: "WorkDistributor \<Rightarrow> string \<times> ActiveDelegation \<Rightarrow> bool" where
  "wf_delegation d e =
     (d_task_id (snd e) = fst e
      \<and> promise (snd e) < length (promises d)
      \<and> timer (snd e) < length (timers d)
      \<and> promises d ! promise (snd e) = Pending
      \<and> t_state (timers d ! timer (snd e)) = Armed
      \<and> t_taskId (timers d ! timer (snd e)) = fst e
      \<and> t_promise (timers d ! timer (snd e)) = promise (snd e))"

definition wf_distributor :: "WorkDistributor \<Rightarrow> bool" where
  "wf_distributor d =
     (wf_map (activeDelegations d)
      \<and> list_all (wf_delegation d) (activeDelegations d)
      \<and> distinct (map (\<lambda>e. promise (snd e)) (activeDelegations d))
      \<and> distinct (map (\<lambda>e. timer (snd e)) (activeDelegations d))
      \<and> list_all (\<lambda>p. promises d ! p = Pending \<longrightarrow>
                      p \<in> set (map (\<lambda>e. promise (snd e)) (activeDelegations d)))
            [0..<length (promises d)]
      \<and> list_all (\<lambda>tm. t_state (timers d ! tm) = Armed \<longrightarrow>
                      tm \<in> set (map (\<lambda>e. timer (snd e)) (activeDelegations d)))
            [0..<length (timers d)])"

text \<open>
  \<open>same_config\<close>: the fields that only the constructor and \<^verbatim>\<open>selectPeers\<close> write.
  \<open>distribute_calls\<close>: successive calls of \<^verbatim>\<open>distribute\<close> over the same active peers, each
  with its own environment; it returns the trace of each call.
\<close>

definition same_config :: "WorkDistributor \<Rightarrow> WorkDistributor \<Rightarrow> bool" where
  "same_config d d' =
     (strategy d' = strategy d \<and> maxRetries d' = maxRetries d
      \<and> delegationTimeoutMs d' = delegationTimeoutMs d \<and> roundRobinIndex d' = roundRobinIndex d)"

fun distribute_calls ::
  "WorkDistributor \<Rightarrow> string \<Rightarrow> string \<Rightarrow> SwarmTaskConstraints option \<Rightarrow> PeerEntry list \<Rightarrow>
   (nat \<Rightarrow> AttemptEnv) list \<Rightarrow> (string \<times> outcome) list list" where
  "distribute_calls d taskText sessionId constraints actives [] = []"
| "distribute_calls d taskText sessionId constraints actives (env # envs) =
     (case distribute d taskText sessionId constraints actives env of
        (d', trace, res) \<Rightarrow>
          trace # distribute_calls d' taskText sessionId constraints actives envs)"

text \<open>
  \<open>failed_attempt\<close>: an attempt that ended with a thrown error. \<open>timers_in_range\<close>: every
  stored delegation holds a timer that exists. \<open>own_timer d p tm\<close>: \<open>tm\<close> is the expiry timer
  of the promise \<open>p\<close>, and it is armed for as long as \<open>p\<close> is pending.
\<close>

definition failed_attempt :: "string \<times> outcome \<Rightarrow> bool" where
  "failed_attempt a = (case snd a of Some (Inl e) \<Rightarrow> True | _ \<Rightarrow> False)"

definition timers_in_range :: "WorkDistributor \<Rightarrow> bool" where
  "timers_in_range d = list_all (\<lambda>e. timer (snd e) < length (timers d)) (activeDelegations d)"

definition own_timer :: "WorkDistributor \<Rightarrow> nat \<Rightarrow> nat \<Rightarrow> bool" where
  "own_timer d p tm =
     (p < length (promises d) \<and> tm < length (timers d) \<and> t_promise (timers d ! tm) = p
      \<and> list_all (\<lambda>e. timer (snd e) = tm \<longrightarrow> promise (snd e) = p) (activeDelegations d)
      \<and> (promises d ! p = Pending \<longrightarrow> t_state (timers d ! tm) = Armed))"

section \<open>Swarm mesh core: replay protection of the mesh manager\<close>

text \<open>
  Modelled from the spec: the data of \<^verbatim>\<open>MeshManager\<close> that \<^verbatim>\<open>handleTaskRequest\<close> uses.
  \<^verbatim>\<open>mesh-manager.ts\<close> is not among the sources (its tests are); the request is the
  \<^verbatim>\<open>SwarmTaskRequest\<close> of \<^verbatim>\<open>types.ts\<close>, the reply is \<^verbatim>\<open>{accepted, reason?, session_id?}\<close>, the
  nonce ledger maps a nonce to the instant it was first seen, and \<open>factory_calls\<close> lists the
  requests the session factory \<^verbatim>\<open>onTaskRequest\<close> has been invoked with.
\<close>

record SwarmTaskRequest =
  req_task_id :: string
  originator_node_id :: string
  originator_session_id :: string
  task_text :: string
  constraints :: "SwarmTaskConstraints option"
  req_correlation_id :: string
  nonce :: string

record TaskRequestReply =
  r_accepted :: bool
  r_reason :: "string option"
  r_session_id :: "string option"

record MeshManager =
  nonce_window_ms :: int
  seenNonces :: "(string \<times> int) list"
  onTaskRequest :: "(SwarmTaskRequest \<Rightarrow> TaskRequestReply) option"
  factory_calls :: "SwarmTaskRequest list"

text \<open>
  Modelled from the spec: the lazy expiry of the nonce ledger of \<^verbatim>\<open>mesh-manager.ts\<close>
  ("entries older than \<^verbatim>\<open>nonce_window_ms\<close> are expired lazily on lookup").
\<close>

definition expire_nonces :: "int \<Rightarrow> int \<Rightarrow> (string \<times> int) list \<Rightarrow> (string \<times> int) list" where
  "expire_nonces now window ledger = filter (\<lambda>(n, seen). \<not> now - seen > window) ledger"

text \<open>
  Modelled from the spec: \<^verbatim>\<open>MeshManager.handleTaskRequest\<close> of \<^verbatim>\<open>mesh-manager.ts\<close>, in
  the five steps of the spec: expire the ledger; reject a nonce that is in the ledger with
  "Replayed nonce"; without a session factory reject with "Node does not accept delegated
  tasks" and do not record the nonce; record the nonce with the current instant; invoke the
  factory and return its reply as it is.
\<close>

definition handleTaskRequest ::
  "MeshManager \<Rightarrow> SwarmTaskRequest \<Rightarrow> int \<Rightarrow> MeshManager \<times> TaskRequestReply" where
  "handleTaskRequest m req now =
     (let ledger = expire_nonces now (nonce_window_ms m) (seenNonces m);
          m1 = m\<lparr>seenNonces := ledger\<rparr>
      in if map_of ledger (nonce req) \<noteq> None then
           (m1, \<lparr>r_accepted = False, r_reason = Some ''Replayed nonce'', r_session_id = None\<rparr>)
         else
           (case onTaskRequest m of
              None \<Rightarrow>
                (m1, \<lparr>r_accepted = False, r_reason = Some ''Node does not accept delegated tasks'',
                       r_session_id = None\<rparr>)
            | Some factory \<Rightarrow>
                (m1\<lparr>seenNonces := AList.update (nonce req) now ledger,
                    factory_calls := factory_calls m @ [req]\<rparr>,
                 factory req)))"

text \<open>A run of task requests, each with the instant it is handled at.\<close>

fun handle_all :: "MeshManager \<Rightarrow> (SwarmTaskRequest \<times> int) list \<Rightarrow> MeshManager" where
  "handle_all m [] = m"
| "handle_all m ((req, now) # rest) = handle_all (fst (handleTaskRequest m req now)) rest"

section \<open>Concrete inputs\<close>

text \<open>The tables and identities the tests of the repository build, for the instances below.\<close>

definition ex_identity :: "string \<Rightarrow> SwarmNodeIdentity" where
  "ex_identity n = \<lparr>node_id = n, display_name = ''Test Node'', api_url = ''http://localhost:3100'',
     capabilities = [''read-file'', ''shell-exec''], version = ''0.1.0''\<rparr>"

definition ex_peer :: "string \<Rightarrow> PeerStatus \<Rightarrow> int \<Rightarrow> PeerEntry" where
  "ex_peer n s hb = \<lparr>identity = ex_identity n, status = s, last_heartbeat_at = hb,
     last_latency_ms = 0, consecutive_failures = 0, joined_at = 0\<rparr>"

definition ex_thresholds :: SweepThresholds where
  "ex_thresholds = \<lparr>suspected_after_ms = 15000, unreachable_after_ms = 30000,
     evict_after_ms = 120000\<rparr>"

definition ex_table :: PeerTable where
  "ex_table = \<lparr>peers = [(''a'', ex_peer ''a'' Active 180000), (''b'', ex_peer ''b'' Active 165000),
       (''c'', ex_peer ''c'' Suspected 70000), (''d'', ex_peer ''d'' Left 70000),
       (''e'', ex_peer ''e'' Active 199000)],
     maxPeers = 5\<rparr>"

definition ex_small :: PeerTable where
  "ex_small = \<lparr>peers = [(''a'', ex_peer ''a'' Active 180000)], maxPeers = 5\<rparr>"

definition ex_ops :: "TableOp list" where
  "ex_ops = [Sweep ex_thresholds 200000, RecordFailure ''a'', Add (ex_identity ''f'') 210000,
     Sweep ex_thresholds 220000, RecordHeartbeat ''e'' 12 230000, Sweep ex_thresholds 400000]"


definition ex_result :: SwarmTaskResult where
  "ex_result = \<lparr>task_id = ''task-1'', peer_node_id = ''B'', peer_session_id = ''sess-X'',
     result_status = completed, findings = [], tokens_used = 100, cost_usd = 0,
     duration_ms = 5000\<rparr>"

definition ex_actives :: "PeerEntry list" where
  "ex_actives = [ex_peer ''A'' Active 0, ex_peer ''B'' Active 0]"

definition env_reject :: "string \<Rightarrow> AttemptEnv" where
  "env_reject why =
     \<lparr>delegateTask = (\<lambda>peerId text session cs.
         Inr \<lparr>accepted = False, reason = Some why, taskId = ''''\<rparr>),
      uuid = ''u0'', clock = 1000, events = []\<rparr>"

definition env_accept :: "Event list \<Rightarrow> AttemptEnv" where
  "env_accept evs =
     \<lparr>delegateTask = (\<lambda>peerId text session cs.
         Inr \<lparr>accepted = True, reason = None, taskId = ''task-1''\<rparr>),
      uuid = ''u1'', clock = 1001, events = evs\<rparr>"

definition env_S5 :: "nat \<Rightarrow> AttemptEnv" where
  "env_S5 i = (if i = 0 then env_reject ''Busy'' else env_accept [ResultPosted ex_result])"

definition env_S6 :: "nat \<Rightarrow> AttemptEnv" where
  "env_S6 i = env_accept []"

definition ex_dist :: WorkDistributor where
  "ex_dist = new_WorkDistributor round_robin 300000 2"

definition ex_dist0 :: WorkDistributor where
  "ex_dist0 = new_WorkDistributor round_robin 50 0"

definition ex_caps_peer :: "string \<Rightarrow> PeerStatus \<Rightarrow> string list \<Rightarrow> PeerEntry" where
  "ex_caps_peer n s caps = (ex_peer n s 0)\<lparr>identity := (ex_identity n)\<lparr>capabilities := caps\<rparr>\<rparr>"

definition ex_caps_table :: PeerTable where
  "ex_caps_table = \<lparr>peers = [(''a'', ex_caps_peer ''a'' Active [''read-file'']),
       (''b'', ex_caps_peer ''b'' Active [''shell-exec'']),
       (''c'', ex_caps_peer ''c'' Active [''read-file'', ''shell-exec'']),
       (''d'', ex_caps_peer ''d'' Suspected [''shell-exec''])],
     maxPeers = 5\<rparr>"

definition ex_constraints :: SwarmTaskConstraints where
  "ex_constraints = \<lparr>tool_allowlist = Some [''shell-exec'', ''browser''], max_tokens = None,
     max_cost_usd = None, max_duration_ms = None\<rparr>"

definition ex_cm :: WorkDistributor where
  "ex_cm = new_WorkDistributor capability_match 300000 0"

definition ex_rr :: WorkDistributor where
  "ex_rr = new_WorkDistributor round_robin 300000 0"

definition env_busy :: "nat \<Rightarrow> AttemptEnv" where
  "env_busy i = env_reject ''Busy''"

definition ex_two :: WorkDistributor where
  "ex_two =
     fst (register_delegation
            (fst (register_delegation ex_dist (ex_peer ''A'' Active 0) ''task-1'' ''u1'' 1000))
            (ex_peer ''B'' Active 0) ''task-2'' ''u2'' 1001)"

definition ex_request :: "string \<Rightarrow> string \<Rightarrow> SwarmTaskRequest" where
  "ex_request tid n =
     \<lparr>req_task_id = tid, originator_node_id = ''remote-1'', originator_session_id = ''session-1'',
      task_text = ''Test task'', constraints = None, req_correlation_id = ''corr-1'', nonce = n\<rparr>"

definition ex_mesh :: MeshManager where
  "ex_mesh =
     \<lparr>nonce_window_ms = 300000, seenNonces = [],
      onTaskRequest = Some (\<lambda>req. \<lparr>r_accepted = True, r_reason = None,
                                      r_session_id = Some ''sess-X''\<rparr>),
      factory_calls = []\<rparr>"

section \<open>Peer table: properties\<close>

lemma map_of_update_other: "k' \<noteq> k \<Longrightarrow> map_of (AList.update k v al) k' = map_of al k'"
  by (simp add: update_conv')

lemma map_of_update_same: "map_of (AList.update k v al) k = Some v"
  by (simp add: update_conv')

lemma keys_update_present:
  "map_of al k = Some v \<Longrightarrow> map fst (AList.update k v' al) = map fst al"
  by (induction al) (auto split: if_splits)

lemma length_update_present:
  "map_of al k = Some v \<Longrightarrow> length (AList.update k v' al) = length al"
  by (induction al) (auto split: if_splits)

lemma length_update_absent:
  "map_of al k = None \<Longrightarrow> length (AList.update k v' al) = Suc (length al)"
  by (induction al) (auto split: if_splits)








lemma sweep_loop_step:
  "sweep_loop th now ((k, p) # rest) (m, r) =
     sweep_loop th now rest
       (case sweep_action th now p of
          Skip \<Rightarrow> (m, r)
        | Evict \<Rightarrow> (AList.delete k m, r\<lparr>evicted := evicted r @ [k]\<rparr>)
        | MarkUnreachable \<Rightarrow>
            (AList.update k (p\<lparr>status := Unreachable\<rparr>) m, r\<lparr>unreachable := unreachable r @ [k]\<rparr>)
        | MarkSuspected \<Rightarrow>
            (AList.update k (p\<lparr>status := Suspected\<rparr>) m, r\<lparr>suspected := suspected r @ [k]\<rparr>))"
  by (simp add: sweep_action_def Let_def)

lemma ids_with_Cons:
  "ids_with th now a ((k, p) # es) =
     (if sweep_action th now p = a then k # ids_with th now a es else ids_with th now a es)"
  by (simp add: ids_with_def)

lemma ids_with_Nil: "ids_with th now a [] = []"
  by (simp add: ids_with_def)

lemma sweep_loop_lists:
  "snd (sweep_loop th now rest (m, r)) =
     \<lparr>suspected = suspected r @ ids_with th now MarkSuspected rest,
      unreachable = unreachable r @ ids_with th now MarkUnreachable rest,
      evicted = evicted r @ ids_with th now Evict rest\<rparr>"
proof (induction rest arbitrary: m r)
  case Nil
  show ?case by (simp add: ids_with_Nil)
next
  case (Cons e rest)
  obtain k p where e: "e = (k, p)" by (cases e)
  show ?case unfolding e sweep_loop_step
    by (cases "sweep_action th now p") (simp_all add: Cons.IH ids_with_Cons)
qed

lemma update_at:
  "k \<notin> fst ` set xs \<Longrightarrow> AList.update k v (xs @ (k, p) # ys) = xs @ (k, v) # ys"
  by (induction xs) auto

lemma delete_at:
  "k \<notin> fst ` set xs \<Longrightarrow> k \<notin> fst ` set ys \<Longrightarrow> AList.delete k (xs @ (k, p) # ys) = xs @ ys"
  by (induction xs) (auto simp: )

lemma swept_Cons:
  "swept th now ((k, p) # es) =
     (case after_action (sweep_action th now p) p of
        None \<Rightarrow> swept th now es
      | Some q \<Rightarrow> (k, q) # swept th now es)"
  by (simp add: swept_def map_filter_def split: option.splits)

lemma swept_Nil: "swept th now [] = []"
  by (simp add: swept_def map_filter_def)

lemma sweep_loop_entries:
  "distinct (map fst (pre @ rest)) \<Longrightarrow>
   fst (sweep_loop th now rest (pre @ rest, r)) = pre @ swept th now rest"
proof (induction rest arbitrary: pre r)
  case Nil
  then show ?case by (simp add: swept_Nil)
next
  case (Cons e rest)
  obtain k p where e: "e = (k, p)" by (cases e)
  from Cons.prems e have kpre: "k \<notin> fst ` set pre" and krest: "k \<notin> fst ` set rest"
    by auto
  have d1: "distinct (map fst (pre @ rest))" using Cons.prems by simp
  have d2: "\<And>v. distinct (map fst ((pre @ [(k, v)]) @ rest))" using Cons.prems e by simp
  have ih2: "\<And>v r. fst (sweep_loop th now rest (pre @ (k, v) # rest, r)) = pre @ (k, v) # swept th now rest"
    using Cons.IH[OF d2] by simp
  show ?case unfolding e sweep_loop_step
    by (cases "sweep_action th now p")
       (simp_all add: swept_Cons ih2 Cons.IH[OF d1] update_at[OF kpre] delete_at[OF kpre krest])
qed

lemma sweep_eq:
  "wf_map (peers t) \<Longrightarrow>
   sweep t th now =
     (t\<lparr>peers := swept th now (peers t)\<rparr>,
      \<lparr>suspected = ids_with th now MarkSuspected (peers t),
       unreachable = ids_with th now MarkUnreachable (peers t),
       evicted = ids_with th now Evict (peers t)\<rparr>)"
  using sweep_loop_entries[of "[]" "peers t" th now] sweep_loop_lists[of th now "peers t" "peers t"]
  by (simp add: sweep_def wf_map_def split_beta prod_eq_iff)

lemma swept_keys: "fst ` set (swept th now es) \<subseteq> fst ` set es"
proof (induction es)
  case Nil show ?case by (simp add: swept_Nil)
next
  case (Cons e es)
  obtain k p where e: "e = (k, p)" by (cases e)
  show ?case unfolding e using Cons.IH
    by (cases "after_action (sweep_action th now p) p") (auto simp: swept_Cons)
qed

lemma map_of_swept:
  "distinct (map fst es) \<Longrightarrow>
   map_of (swept th now es) k =
     (case map_of es k of None \<Rightarrow> None | Some p \<Rightarrow> after_action (sweep_action th now p) p)"
proof (induction es)
  case Nil then show ?case by (simp add: swept_Nil)
next
  case (Cons e es)
  obtain k' p where e: "e = (k', p)" by (cases e)
  have sk: "fst ` set (swept th now es) \<subseteq> fst ` set es" by (rule swept_keys)
  have ih: "map_of (swept th now es) k =
     (case map_of es k of None \<Rightarrow> None | Some p \<Rightarrow> after_action (sweep_action th now p) p)"
    using Cons by simp
  show ?case
  proof (cases "k = k'")
    case True
    then have "map_of (swept th now es) k = None"
      using Cons.prems sk e by (auto simp: map_of_eq_None_iff)
    then show ?thesis using True e
      by (cases "after_action (sweep_action th now p) p") (simp_all add: swept_Cons)
  next
    case False
    then show ?thesis using ih e
      by (cases "after_action (sweep_action th now p) p") (simp_all add: swept_Cons)
  qed
qed

lemma wf_swept: "distinct (map fst es) \<Longrightarrow> distinct (map fst (swept th now es))"
proof (induction es)
  case Nil then show ?case by (simp add: swept_Nil)
next
  case (Cons e es)
  obtain k p where e: "e = (k, p)" by (cases e)
  have sk: "fst ` set (swept th now es) \<subseteq> fst ` set es" by (rule swept_keys)
  show ?case unfolding e using Cons sk e
    by (cases "after_action (sweep_action th now p) p") (auto simp: swept_Cons)
qed

lemma length_swept: "length (swept th now es) \<le> length es"
  by (simp add: swept_def map_filter_def)

lemma ids_with_mem:
  "distinct (map fst es) \<Longrightarrow>
   k \<in> set (ids_with th now a es) \<longleftrightarrow> (\<exists>p. map_of es k = Some p \<and> sweep_action th now p = a)"
  by (force simp: ids_with_def)

lemma ids_with_distinct: "distinct (map fst es) \<Longrightarrow> distinct (ids_with th now a es)"
  by (simp add: ids_with_def distinct_map_filter)

lemma sweep_get:
  assumes "wf_map (peers t)"
  shows "get (fst (sweep t th now)) k =
     (case get t k of None \<Rightarrow> None | Some p \<Rightarrow> after_action (sweep_action th now p) p)"
  using assms by (simp add: sweep_eq get_def map_of_swept wf_map_def)

lemma sweep_lists_mem:
  assumes "wf_map (peers t)"
  shows "k \<in> set (suspected (snd (sweep t th now))) \<longleftrightarrow>
           (\<exists>p. get t k = Some p \<and> sweep_action th now p = MarkSuspected)"
    and "k \<in> set (unreachable (snd (sweep t th now))) \<longleftrightarrow>
           (\<exists>p. get t k = Some p \<and> sweep_action th now p = MarkUnreachable)"
    and "k \<in> set (evicted (snd (sweep t th now))) \<longleftrightarrow>
           (\<exists>p. get t k = Some p \<and> sweep_action th now p = Evict)"
  using assms by (simp_all add: sweep_eq get_def ids_with_mem wf_map_def)

text \<open>
  C1. \<^verbatim>\<open>sweep\<close> visits every entry whose status is not \<open>Left\<close> and applies the first
  matching transition, highest threshold first, with \<open>age = now - last_heartbeat_at\<close>:
  \<open>age \<ge> evict_after_ms\<close> removes the entry and lists its id as evicted; otherwise
  \<open>age \<ge> unreachable_after_ms\<close> with a status other than \<open>Unreachable\<close> sets \<open>Unreachable\<close>
  and lists the id as unreachable; otherwise \<open>age \<ge> suspected_after_ms\<close> with status
  \<open>Active\<close> sets \<open>Suspected\<close> and lists the id as suspected; otherwise the entry stays
  as it is. An entry with status \<open>Left\<close> is untouched and is in no list. An id is in at
  most one list, at most once, and an id that is not in the table is in none.
\<close>

theorem sweep_first_matching_transition:
  assumes wf: "wf_map (peers t)"
  shows
   "(get t nodeId = None \<longrightarrow>
       get (fst (sweep t th now)) nodeId = None
       \<and> nodeId \<notin> set (suspected (snd (sweep t th now)))
       \<and> nodeId \<notin> set (unreachable (snd (sweep t th now)))
       \<and> nodeId \<notin> set (evicted (snd (sweep t th now))))
    \<and> (\<forall>peer. get t nodeId = Some peer \<longrightarrow>
       (status peer = Left \<longrightarrow>
          get (fst (sweep t th now)) nodeId = Some peer
          \<and> nodeId \<notin> set (suspected (snd (sweep t th now)))
          \<and> nodeId \<notin> set (unreachable (snd (sweep t th now)))
          \<and> nodeId \<notin> set (evicted (snd (sweep t th now))))
       \<and> (status peer \<noteq> Left \<and> now - last_heartbeat_at peer \<ge> evict_after_ms th \<longrightarrow>
          get (fst (sweep t th now)) nodeId = None
          \<and> nodeId \<in> set (evicted (snd (sweep t th now)))
          \<and> nodeId \<notin> set (unreachable (snd (sweep t th now)))
          \<and> nodeId \<notin> set (suspected (snd (sweep t th now))))
       \<and> (status peer \<noteq> Left \<and> \<not> now - last_heartbeat_at peer \<ge> evict_after_ms th
            \<and> now - last_heartbeat_at peer \<ge> unreachable_after_ms th
            \<and> status peer \<noteq> Unreachable \<longrightarrow>
          get (fst (sweep t th now)) nodeId = Some (peer\<lparr>status := Unreachable\<rparr>)
          \<and> nodeId \<in> set (unreachable (snd (sweep t th now)))
          \<and> nodeId \<notin> set (evicted (snd (sweep t th now)))
          \<and> nodeId \<notin> set (suspected (snd (sweep t th now))))
       \<and> (status peer \<noteq> Left \<and> \<not> now - last_heartbeat_at peer \<ge> evict_after_ms th
            \<and> \<not> (now - last_heartbeat_at peer \<ge> unreachable_after_ms th
                   \<and> status peer \<noteq> Unreachable)
            \<and> now - last_heartbeat_at peer \<ge> suspected_after_ms th
            \<and> status peer = Active \<longrightarrow>
          get (fst (sweep t th now)) nodeId = Some (peer\<lparr>status := Suspected\<rparr>)
          \<and> nodeId \<in> set (suspected (snd (sweep t th now)))
          \<and> nodeId \<notin> set (evicted (snd (sweep t th now)))
          \<and> nodeId \<notin> set (unreachable (snd (sweep t th now))))
       \<and> (status peer \<noteq> Left \<and> \<not> now - last_heartbeat_at peer \<ge> evict_after_ms th
            \<and> \<not> (now - last_heartbeat_at peer \<ge> unreachable_after_ms th
                   \<and> status peer \<noteq> Unreachable)
            \<and> \<not> (now - last_heartbeat_at peer \<ge> suspected_after_ms th
                   \<and> status peer = Active) \<longrightarrow>
          get (fst (sweep t th now)) nodeId = Some peer
          \<and> nodeId \<notin> set (suspected (snd (sweep t th now)))
          \<and> nodeId \<notin> set (unreachable (snd (sweep t th now)))
          \<and> nodeId \<notin> set (evicted (snd (sweep t th now)))))
    \<and> distinct (suspected (snd (sweep t th now)) @ unreachable (snd (sweep t th now))
                 @ evicted (snd (sweep t th now)))"
proof (intro conjI allI impI)
  show "distinct (suspected (snd (sweep t th now)) @ unreachable (snd (sweep t th now))
                 @ evicted (snd (sweep t th now)))"
    using wf sweep_lists_mem[OF wf, of _ th now]
    by (auto simp: sweep_eq[OF wf] wf_map_def ids_with_distinct ids_with_mem)
qed (auto simp add: sweep_get[OF wf] sweep_lists_mem[OF wf] sweep_action_def)

lemma wf_update: "wf_map m \<Longrightarrow> wf_map (AList.update k v m)"
  by (simp add: wf_map_def distinct_update)

lemma wf_delete: "wf_map m \<Longrightarrow> wf_map (AList.delete k m)"
  by (simp add: wf_map_def distinct_delete)

lemma length_delete: "length (AList.delete k m) \<le> length m"
  by (simp add: AList.delete_eq)

lemma length_update_le: "length (AList.update k v m) \<le> Suc (length m)"
  by (induction m) auto

lemma add_present:
  assumes "get t (node_id ident) = Some existing"
  shows "add t ident now =
     (t\<lparr>peers := AList.update (node_id ident)
          (existing\<lparr>identity := ident, status := Active, last_heartbeat_at := now,
                    consecutive_failures := 0\<rparr>) (peers t)\<rparr>,
      Inr (existing\<lparr>identity := ident, status := Active, last_heartbeat_at := now,
                    consecutive_failures := 0\<rparr>))"
  using assms by (simp add: add_def get_def Let_def)

lemma add_full:
  assumes "get t (node_id ident) = None" "size_peers t \<ge> maxPeers t"
  shows "add t ident now = (t, Inl (PeerTableFull (maxPeers t)))"
  using assms by (simp add: add_def get_def)

lemma update_absent: "map_of m k = None \<Longrightarrow> AList.update k v m = m @ [(k, v)]"
  by (induction m) (auto split: if_splits)

lemma add_absent:
  assumes "get t (node_id ident) = None" "size_peers t < maxPeers t"
  shows "add t ident now =
     (t\<lparr>peers := peers t @ [(node_id ident,
          \<lparr>identity = ident, status = Active, last_heartbeat_at = now,
           last_latency_ms = 0, consecutive_failures = 0, joined_at = now\<rparr>)]\<rparr>,
      Inr \<lparr>identity = ident, status = Active, last_heartbeat_at = now,
           last_latency_ms = 0, consecutive_failures = 0, joined_at = now\<rparr>)"
  using assms by (simp add: add_def get_def Let_def update_absent)

lemma add_cases:
  "(\<exists>e. fst (add t ident now) = t\<lparr>peers := AList.update (node_id ident) e (peers t)\<rparr>
        \<and> (get t (node_id ident) = None \<longrightarrow> size_peers t < maxPeers t))
   \<or> fst (add t ident now) = t"
proof (cases "get t (node_id ident)")
  case None
  show ?thesis
  proof (cases "size_peers t \<ge> maxPeers t")
    case True then show ?thesis using add_full[OF None] by simp
  next
    case False
    then have lt: "size_peers t < maxPeers t" by simp
    have "get t (node_id ident) = None \<Longrightarrow> map_of (peers t) (node_id ident) = None"
      by (simp add: get_def)
    then show ?thesis using add_absent[OF None lt, of now] None lt
      by (auto simp: update_absent)
  qed
next
  case (Some existing)
  then show ?thesis using add_present[OF Some, of now] by auto
qed

lemma add_get_other: "k \<noteq> node_id ident \<Longrightarrow> get (fst (add t ident now)) k = get t k"
  using add_cases[of t ident now] by (auto simp: get_def map_of_update_other)

lemma add_maxPeers: "maxPeers (fst (add t ident now)) = maxPeers t"
  using add_cases[of t ident now] by auto

lemma add_wf: "wf_map (peers t) \<Longrightarrow> wf_map (peers (fst (add t ident now)))"
  using add_cases[of t ident now] by (auto simp: wf_update)

lemma add_size:
  "size_peers t \<le> maxPeers t \<Longrightarrow> size_peers (fst (add t ident now)) \<le> maxPeers t"
proof (cases "get t (node_id ident)")
  case None
  assume le: "size_peers t \<le> maxPeers t"
  show ?thesis
  proof (cases "size_peers t \<ge> maxPeers t")
    case True then show ?thesis using add_full[OF None] le by simp
  next
    case False
    then have lt: "size_peers t < maxPeers t" by simp
    show ?thesis using add_absent[OF None lt, of now] lt by (simp add: size_peers_def)
  qed
next
  case (Some existing)
  assume le: "size_peers t \<le> maxPeers t"
  have "map_of (peers t) (node_id ident) = Some existing" using Some by (simp add: get_def)
  then show ?thesis using add_present[OF Some, of now] le
    by (simp add: size_peers_def length_update_present)
qed

lemma stage_sweep_step:
  "stage (Some p) \<le> stage (after_action (sweep_action th now p) p)"
  by (cases "status p") (simp_all add: sweep_action_def)

lemma left_sweep_step:
  "status p = Left \<Longrightarrow> after_action (sweep_action th now p) p = Some p"
  by (simp add: sweep_action_def)

lemma sweep_wf: "wf_map (peers t) \<Longrightarrow> wf_map (peers (fst (sweep t th now)))"
  by (simp add: sweep_eq wf_map_def wf_swept)

lemma sweep_size: "wf_map (peers t) \<Longrightarrow> size_peers (fst (sweep t th now)) \<le> size_peers t"
  by (simp add: sweep_eq size_peers_def length_swept)

lemma sweep_maxPeers: "maxPeers (fst (sweep t th now)) = maxPeers t"
  by (simp add: sweep_def split_beta)

lemma sweep_stage: "wf_map (peers t) \<Longrightarrow> stage (get t k) \<le> stage (get (fst (sweep t th now)) k)"
proof (cases "get t k")
  case None
  assume "wf_map (peers t)"
  then show ?thesis using None by (simp add: sweep_get)
next
  case (Some p)
  assume "wf_map (peers t)"
  then show ?thesis using Some stage_sweep_step[of p th now] by (simp only: sweep_get option.case)
qed

lemma sweep_left:
  "wf_map (peers t) \<Longrightarrow> get t k = Some p \<Longrightarrow> status p = Left \<Longrightarrow>
   get (fst (sweep t th now)) k = Some p"
  by (simp add: sweep_get left_sweep_step)

lemma remove_peer_get_other: "k \<noteq> nodeId \<Longrightarrow> get (fst (remove_peer t nodeId)) k = get t k"
  by (simp add: remove_peer_def get_def)

lemma recordHeartbeat_get_other:
  "k \<noteq> nodeId \<Longrightarrow> get (fst (recordHeartbeat t nodeId l now)) k = get t k"
  by (cases "map_of (peers t) nodeId") (simp_all add: recordHeartbeat_def get_def map_of_update_other)

lemma markLeft_get_other: "k \<noteq> nodeId \<Longrightarrow> get (fst (markLeft t nodeId)) k = get t k"
  by (cases "map_of (peers t) nodeId") (simp_all add: markLeft_def get_def map_of_update_other)

lemma recordFailure_get:
  "get (fst (recordFailure t nodeId)) k =
     (if k = nodeId
      then map_option (\<lambda>p. p\<lparr>consecutive_failures := js_increment (consecutive_failures p)\<rparr>)
             (get t k)
      else get t k)"
  by (cases "map_of (peers t) nodeId")
     (simp_all add: recordFailure_def get_def Let_def map_of_update_other map_of_update_same)

lemma recordFailure_stage: "stage (get (fst (recordFailure t nodeId)) k) = stage (get t k)"
  by (cases "get t k"; cases "k = nodeId") (simp_all add: recordFailure_get)

lemma recordFailure_is_left: "is_left (get (fst (recordFailure t nodeId)) k) = is_left (get t k)"
  by (cases "get t k"; cases "k = nodeId") (simp_all add: recordFailure_get is_left_def)

lemma apply_op_stage:
  "wf_map (peers t) \<Longrightarrow> leaves_alone k op \<Longrightarrow>
   stage (get t k) \<le> stage (get (apply_op t op) k)"
  by (cases op)
     (simp_all add: sweep_stage add_get_other remove_peer_get_other recordHeartbeat_get_other
        markLeft_get_other recordFailure_stage)

lemma apply_op_left:
  "wf_map (peers t) \<Longrightarrow> leaves_alone k op \<Longrightarrow> is_left (get t k) \<Longrightarrow>
   is_left (get (apply_op t op) k)"
proof (cases op)
  case (Sweep th now)
  assume "wf_map (peers t)" "is_left (get t k)"
  then show ?thesis using Sweep by (cases "get t k") (simp_all add: is_left_def sweep_left)
qed (simp_all add: add_get_other remove_peer_get_other recordHeartbeat_get_other
        markLeft_get_other recordFailure_is_left)

lemma apply_op_wf: "wf_map (peers t) \<Longrightarrow> wf_map (peers (apply_op t op))"
proof (cases op)
  case (RecordHeartbeat n l now)
  assume "wf_map (peers t)"
  then show ?thesis using RecordHeartbeat
    by (cases "map_of (peers t) n") (simp_all add: recordHeartbeat_def wf_update)
next
  case (RecordFailure n)
  assume "wf_map (peers t)"
  then show ?thesis using RecordFailure
    by (cases "map_of (peers t) n") (simp_all add: recordFailure_def wf_update Let_def)
next
  case (MarkLeft n)
  assume "wf_map (peers t)"
  then show ?thesis using MarkLeft
    by (cases "map_of (peers t) n") (simp_all add: markLeft_def wf_update)
qed (simp_all add: sweep_wf add_wf remove_peer_def wf_delete)

lemma apply_op_maxPeers: "maxPeers (apply_op t op) = maxPeers t"
proof (cases op)
  case (RecordHeartbeat n l now)
  then show ?thesis by (cases "map_of (peers t) n") (simp_all add: recordHeartbeat_def)
next
  case (RecordFailure n)
  then show ?thesis by (cases "map_of (peers t) n") (simp_all add: recordFailure_def Let_def)
next
  case (MarkLeft n)
  then show ?thesis by (cases "map_of (peers t) n") (simp_all add: markLeft_def)
qed (simp_all add: sweep_maxPeers add_maxPeers remove_peer_def)

lemma apply_op_size:
  assumes "wf_map (peers t)" "size_peers t \<le> maxPeers t"
  shows "size_peers (apply_op t op) \<le> maxPeers t"
proof (cases op)
  case (Sweep th now)
  then show ?thesis using sweep_size[OF assms(1), of th now] assms(2) by simp
next
  case (Add ident now)
  then show ?thesis using add_size[OF assms(2)] by simp
next
  case (Remove n)
  then show ?thesis using assms(2) length_delete[of n "peers t"]
    by (simp add: remove_peer_def size_peers_def)
next
  case (RecordHeartbeat n l now)
  then show ?thesis using assms(2)
    by (cases "map_of (peers t) n")
       (simp_all add: recordHeartbeat_def size_peers_def length_update_present)
next
  case (RecordFailure n)
  then show ?thesis using assms(2)
    by (cases "map_of (peers t) n")
       (simp_all add: recordFailure_def size_peers_def length_update_present Let_def)
next
  case (MarkLeft n)
  then show ?thesis using assms(2)
    by (cases "map_of (peers t) n")
       (simp_all add: markLeft_def size_peers_def length_update_present)
qed

lemma run_ops_Nil: "run_ops t [] = t"
  by (simp add: run_ops_def)

lemma run_ops_Cons: "run_ops t (op # ops) = run_ops (apply_op t op) ops"
  by (simp add: run_ops_def)

lemma run_ops_append: "run_ops t (xs @ ys) = run_ops (run_ops t xs) ys"
  by (simp add: run_ops_def)

lemma run_ops_wf: "wf_map (peers t) \<Longrightarrow> wf_map (peers (run_ops t ops))"
  by (induction ops arbitrary: t) (simp_all add: run_ops_Nil run_ops_Cons apply_op_wf)

lemma run_ops_capacity:
  "wf_map (peers t) \<Longrightarrow> size_peers t \<le> maxPeers t \<Longrightarrow>
   size_peers (run_ops t ops) \<le> maxPeers t"
proof (induction ops arbitrary: t)
  case Nil then show ?case by (simp add: run_ops_Nil)
next
  case (Cons op ops)
  have "size_peers (run_ops (apply_op t op) ops) \<le> maxPeers (apply_op t op)"
    using Cons.prems by (intro Cons.IH) (simp_all add: apply_op_wf apply_op_size apply_op_maxPeers)
  then show ?case by (simp add: run_ops_Cons apply_op_maxPeers)
qed

lemma run_ops_stage:
  "wf_map (peers t) \<Longrightarrow> list_all (leaves_alone k) ops \<Longrightarrow>
   stage (get t k) \<le> stage (get (run_ops t ops) k)"
proof (induction ops arbitrary: t)
  case Nil then show ?case by (simp add: run_ops_Nil)
next
  case (Cons op ops)
  have "stage (get t k) \<le> stage (get (apply_op t op) k)"
    using Cons.prems by (simp add: apply_op_stage)
  moreover have "stage (get (apply_op t op) k) \<le> stage (get (run_ops (apply_op t op) ops) k)"
    using Cons.prems by (intro Cons.IH) (simp_all add: apply_op_wf)
  ultimately show ?case by (simp add: run_ops_Cons)
qed

lemma run_ops_left:
  "wf_map (peers t) \<Longrightarrow> list_all (leaves_alone k) ops \<Longrightarrow> is_left (get t k) \<Longrightarrow>
   is_left (get (run_ops t ops) k)"
proof (induction ops arbitrary: t)
  case Nil then show ?case by (simp add: run_ops_Nil)
next
  case (Cons op ops)
  have "is_left (get (run_ops (apply_op t op) ops) k)"
    using Cons.prems by (intro Cons.IH) (simp_all add: apply_op_wf apply_op_left)
  then show ?case by (simp add: run_ops_Cons)
qed

lemma take_split: "i \<le> j \<Longrightarrow> take j ops = take i ops @ take (j - i) (drop i ops)"
  by (metis le_add_diff_inverse take_add)

text \<open>
  C6. \<^verbatim>\<open>add(identity)\<close> is an upsert. On a present id it refreshes the identity, sets the
  status to \<open>Active\<close>, stamps the heartbeat with the current instant, clears the failure
  count, returns the entry and leaves the size and the key order as they were (latency and
  \<open>joined_at\<close> are kept). On an absent id with \<open>size \<ge> maxPeers\<close> it fails with
  \<open>PeerTableFull\<close> and the table is unchanged. Otherwise it appends a new entry with status
  \<open>Active\<close>, latency 0 and no failures. No other entry changes, and a table within its
  capacity stays within it, after the call and after any further run of table operations.
\<close>

theorem add_upsert:
  "(\<forall>existing. get t (node_id ident) = Some existing \<longrightarrow>
      snd (add t ident now) =
        Inr (existing\<lparr>identity := ident, status := Active, last_heartbeat_at := now,
                      consecutive_failures := 0\<rparr>)
      \<and> get (fst (add t ident now)) (node_id ident) =
        Some (existing\<lparr>identity := ident, status := Active, last_heartbeat_at := now,
                       consecutive_failures := 0\<rparr>)
      \<and> size_peers (fst (add t ident now)) = size_peers t
      \<and> map fst (peers (fst (add t ident now))) = map fst (peers t))
   \<and> (get t (node_id ident) = None \<and> size_peers t \<ge> maxPeers t \<longrightarrow>
      add t ident now = (t, Inl (PeerTableFull (maxPeers t))))
   \<and> (get t (node_id ident) = None \<and> size_peers t < maxPeers t \<longrightarrow>
      snd (add t ident now) =
        Inr \<lparr>identity = ident, status = Active, last_heartbeat_at = now,
             last_latency_ms = 0, consecutive_failures = 0, joined_at = now\<rparr>
      \<and> peers (fst (add t ident now)) = peers t @ [(node_id ident,
           \<lparr>identity = ident, status = Active, last_heartbeat_at = now,
            last_latency_ms = 0, consecutive_failures = 0, joined_at = now\<rparr>)]
      \<and> size_peers (fst (add t ident now)) = size_peers t + 1)
   \<and> (\<forall>k. k \<noteq> node_id ident \<longrightarrow> get (fst (add t ident now)) k = get t k)
   \<and> maxPeers (fst (add t ident now)) = maxPeers t
   \<and> (size_peers t \<le> maxPeers t \<longrightarrow> size_peers (fst (add t ident now)) \<le> maxPeers t)
   \<and> (wf_map (peers t) \<and> size_peers t \<le> maxPeers t \<longrightarrow>
        (\<forall>ops. size_peers (run_ops (fst (add t ident now)) ops) \<le> maxPeers t))"
proof (intro conjI allI impI)
  fix existing assume ex: "get t (node_id ident) = Some existing"
  then have m: "map_of (peers t) (node_id ident) = Some existing" by (simp add: get_def)
  show "snd (add t ident now) =
        Inr (existing\<lparr>identity := ident, status := Active, last_heartbeat_at := now,
                      consecutive_failures := 0\<rparr>)"
    by (simp add: add_present[OF ex])
  show "get (fst (add t ident now)) (node_id ident) =
        Some (existing\<lparr>identity := ident, status := Active, last_heartbeat_at := now,
                       consecutive_failures := 0\<rparr>)"
    by (simp add: add_present[OF ex] get_def map_of_update_same)
  show "size_peers (fst (add t ident now)) = size_peers t"
    by (simp add: add_present[OF ex] size_peers_def length_update_present[OF m])
  show "map fst (peers (fst (add t ident now))) = map fst (peers t)"
    by (simp add: add_present[OF ex] keys_update_present[OF m])
next
  assume "get t (node_id ident) = None \<and> size_peers t \<ge> maxPeers t"
  then show "add t ident now = (t, Inl (PeerTableFull (maxPeers t)))"
    by (simp add: add_full)
next
  assume a: "get t (node_id ident) = None \<and> size_peers t < maxPeers t"
  then have n: "get t (node_id ident) = None" and lt: "size_peers t < maxPeers t" by simp_all
  show "snd (add t ident now) =
        Inr \<lparr>identity = ident, status = Active, last_heartbeat_at = now,
             last_latency_ms = 0, consecutive_failures = 0, joined_at = now\<rparr>"
    by (simp add: add_absent[OF n lt])
  show "peers (fst (add t ident now)) = peers t @ [(node_id ident,
           \<lparr>identity = ident, status = Active, last_heartbeat_at = now,
            last_latency_ms = 0, consecutive_failures = 0, joined_at = now\<rparr>)]"
    by (simp add: add_absent[OF n lt])
  show "size_peers (fst (add t ident now)) = size_peers t + 1"
    by (simp add: add_absent[OF n lt] size_peers_def)
next
  fix k assume "k \<noteq> node_id ident"
  then show "get (fst (add t ident now)) k = get t k" by (rule add_get_other)
next
  show "maxPeers (fst (add t ident now)) = maxPeers t" by (rule add_maxPeers)
next
  assume "size_peers t \<le> maxPeers t"
  then show "size_peers (fst (add t ident now)) \<le> maxPeers t" by (rule add_size)
next
  fix ops assume a: "wf_map (peers t) \<and> size_peers t \<le> maxPeers t"
  have "size_peers (run_ops (fst (add t ident now)) ops) \<le> maxPeers (fst (add t ident now))"
    using a by (intro run_ops_capacity) (simp_all add: add_wf add_size add_maxPeers)
  then show "size_peers (run_ops (fst (add t ident now)) ops) \<le> maxPeers t"
    by (simp add: add_maxPeers)
qed

text \<open>
  C9. Over any run of table operations that holds, for peer \<open>k\<close>, only sweeps,
  \<^verbatim>\<open>recordFailure\<close> and operations on other peers (no \<^verbatim>\<open>add\<close>, \<^verbatim>\<open>recordHeartbeat\<close>,
  \<^verbatim>\<open>remove\<close> or \<^verbatim>\<open>markLeft\<close> for \<open>k\<close>), whatever the thresholds and the clock of each
  sweep, the stage of \<open>k\<close> never decreases between an earlier and a later point of the
  run: active, suspected, unreachable, evicted. A peer that has left stays left, and a sweep
  returns its entry as it was. The ordering of the thresholds is not needed for this, so it
  holds in particular when \<open>suspected_after_ms \<le> unreachable_after_ms \<le> evict_after_ms\<close>.
\<close>

theorem sweep_never_regresses:
  assumes wf: "wf_map (peers t)"
    and alone: "list_all (leaves_alone k) ops"
    and ij: "i \<le> j"
  shows "stage (get (run_ops t (take i ops)) k) \<le> stage (get (run_ops t (take j ops)) k)
    \<and> (is_left (get (run_ops t (take i ops)) k) \<longrightarrow> is_left (get (run_ops t (take j ops)) k))
    \<and> (\<forall>th now p. get (run_ops t (take i ops)) k = Some p \<and> status p = Left \<longrightarrow>
          get (fst (sweep (run_ops t (take i ops)) th now)) k = Some p)"
proof -
  let ?ti = "run_ops t (take i ops)"
  let ?mid = "take (j - i) (drop i ops)"
  have wfi: "wf_map (peers ?ti)" using wf by (rule run_ops_wf)
  have tj: "run_ops t (take j ops) = run_ops ?ti ?mid"
    using take_split[OF ij, of ops] by (simp add: run_ops_append)
  have "set ?mid \<subseteq> set ops" by (meson set_drop_subset set_take_subset subset_trans)
  then have am: "list_all (leaves_alone k) ?mid" using alone by (auto simp: list_all_iff)
  show ?thesis
    using run_ops_stage[OF wfi am] run_ops_left[OF wfi am] sweep_left[OF wfi]
    by (simp add: tj)
qed

section \<open>Peer table: instances\<close>

lemma wf_ex_table: "wf_map (peers ex_table)"
  by (simp add: wf_map_def ex_table_def)

lemma get_ex_table:
  "get ex_table ''a'' = Some (ex_peer ''a'' Active 180000)"
  "get ex_table ''b'' = Some (ex_peer ''b'' Active 165000)"
  "get ex_table ''c'' = Some (ex_peer ''c'' Suspected 70000)"
  "get ex_table ''d'' = Some (ex_peer ''d'' Left 70000)"
  "get ex_table ''e'' = Some (ex_peer ''e'' Active 199000)"
  "get ex_table ''z'' = None"
  by (simp_all add: get_def ex_table_def)




theorem sweep_first_matching_transition_witness:
  "wf_map (peers ex_table)
   \<and> get (fst (sweep ex_table ex_thresholds 200000)) ''a'' = Some (ex_peer ''a'' Suspected 180000)
   \<and> ''a'' \<in> set (suspected (snd (sweep ex_table ex_thresholds 200000)))
   \<and> get (fst (sweep ex_table ex_thresholds 200000)) ''b'' = Some (ex_peer ''b'' Unreachable 165000)
   \<and> ''b'' \<in> set (unreachable (snd (sweep ex_table ex_thresholds 200000)))
   \<and> get (fst (sweep ex_table ex_thresholds 200000)) ''c'' = None
   \<and> ''c'' \<in> set (evicted (snd (sweep ex_table ex_thresholds 200000)))
   \<and> get (fst (sweep ex_table ex_thresholds 200000)) ''d'' = Some (ex_peer ''d'' Left 70000)
   \<and> ''d'' \<notin> set (evicted (snd (sweep ex_table ex_thresholds 200000)))
   \<and> get (fst (sweep ex_table ex_thresholds 200000)) ''e'' = Some (ex_peer ''e'' Active 199000)
   \<and> ''e'' \<notin> set (suspected (snd (sweep ex_table ex_thresholds 200000)))
   \<and> ''z'' \<notin> set (evicted (snd (sweep ex_table ex_thresholds 200000)))"
proof -
  note th = sweep_first_matching_transition[OF wf_ex_table, of _ ex_thresholds 200000]
  have sel: "\<And>n s hb. status (ex_peer n s hb) = s" "\<And>n s hb. last_heartbeat_at (ex_peer n s hb) = hb"
    "\<And>n s hb. (ex_peer n s hb)\<lparr>status := Suspected\<rparr> = ex_peer n Suspected hb"
    "\<And>n s hb. (ex_peer n s hb)\<lparr>status := Unreachable\<rparr> = ex_peer n Unreachable hb"
    by (simp_all add: ex_peer_def)
  have ths: "evict_after_ms ex_thresholds = 120000" "unreachable_after_ms ex_thresholds = 30000"
    "suspected_after_ms ex_thresholds = 15000"
    by (simp_all add: ex_thresholds_def)
  show ?thesis
    using th[of "''a''"] th[of "''b''"] th[of "''c''"] th[of "''d''"] th[of "''e''"] th[of "''z''"]
    by (simp add: get_ex_table sel ths wf_ex_table)
qed

lemma get_ex_small:
  "get ex_small ''a'' = Some (ex_peer ''a'' Active 180000)"
  "get ex_small ''b'' = None"
  by (simp_all add: get_def ex_small_def)

lemma size_ex: "size_peers ex_table = 5" "maxPeers ex_table = 5"
  "size_peers ex_small = 1" "maxPeers ex_small = 5"
  by (simp_all add: size_peers_def ex_table_def ex_small_def)

theorem add_upsert_witness:
  "snd (add ex_table (ex_identity ''c'') 200000) =
      Inr ((ex_peer ''c'' Suspected 70000)\<lparr>identity := ex_identity ''c'', status := Active,
             last_heartbeat_at := 200000, consecutive_failures := 0\<rparr>)
   \<and> size_peers (fst (add ex_table (ex_identity ''c'') 200000)) = 5
   \<and> add ex_table (ex_identity ''z'') 200000 = (ex_table, Inl (PeerTableFull 5))
   \<and> size_peers (fst (add ex_small (ex_identity ''b'') 200000)) = 2
   \<and> get (fst (add ex_small (ex_identity ''b'') 200000)) ''a'' = get ex_small ''a''
   \<and> size_peers (run_ops (fst (add ex_small (ex_identity ''b'') 200000)) ex_ops) \<le> 5"
proof -
  have id: "\<And>n. node_id (ex_identity n) = n" by (simp add: ex_identity_def)
  have wf: "wf_map (peers ex_small)" by (simp add: wf_map_def ex_small_def)
  have ne: "''a'' \<noteq> ''b''" by simp
  show ?thesis
    using add_upsert[of ex_table "ex_identity ''c''" 200000]
      add_upsert[of ex_table "ex_identity ''z''" 200000]
      add_upsert[of ex_small "ex_identity ''b''" 200000] ne
    by (simp add: id get_ex_table get_ex_small size_ex wf)
qed

lemma ex_ops_alone: "list_all (leaves_alone ''a'') ex_ops"
  by (simp add: ex_ops_def ex_identity_def)

lemma ex_run_1: "get (run_ops ex_table (take 1 ex_ops)) ''a'' = Some (ex_peer ''a'' Suspected 180000)"
  by (simp add: ex_ops_def run_ops_Cons run_ops_Nil sweep_get wf_ex_table get_ex_table
        sweep_action_def ex_peer_def ex_thresholds_def)

lemma ex_run_later:
  "stage (get (run_ops ex_table (take 4 ex_ops)) ''a'') = 2"
  "stage (get (run_ops ex_table (take 6 ex_ops)) ''a'') = 3"
  by code_simp+

theorem sweep_never_regresses_witness:
  "wf_map (peers ex_table) \<and> list_all (leaves_alone ''a'') ex_ops
   \<and> stage (get ex_table ''a'') = 0
   \<and> stage (get (run_ops ex_table (take 1 ex_ops)) ''a'') = 1
   \<and> stage (get (run_ops ex_table (take 4 ex_ops)) ''a'') = 2
   \<and> stage (get (run_ops ex_table (take 6 ex_ops)) ''a'') = 3
   \<and> stage (get (run_ops ex_table (take 1 ex_ops)) ''a'')
        \<le> stage (get (run_ops ex_table (take 4 ex_ops)) ''a'')
   \<and> stage (get (run_ops ex_table (take 4 ex_ops)) ''a'')
        \<le> stage (get (run_ops ex_table (take 6 ex_ops)) ''a'')
   \<and> get (fst (sweep ex_table ex_thresholds 200000)) ''d'' = Some (ex_peer ''d'' Left 70000)"
proof -
  have s: "\<And>n s hb. status (ex_peer n s hb) = s" by (simp add: ex_peer_def)
  have e0: "stage (get ex_table ''a'') = 0" by (simp add: get_ex_table s)
  have e1: "stage (get (run_ops ex_table (take 1 ex_ops)) ''a'') = 1"
    by (simp only: ex_run_1 stage.simps s PeerStatus.case)
  have m1: "stage (get (run_ops ex_table (take 1 ex_ops)) ''a'')
        \<le> stage (get (run_ops ex_table (take 4 ex_ops)) ''a'')"
    using sweep_never_regresses[OF wf_ex_table ex_ops_alone, of 1 4] by simp
  have m2: "stage (get (run_ops ex_table (take 4 ex_ops)) ''a'')
        \<le> stage (get (run_ops ex_table (take 6 ex_ops)) ''a'')"
    using sweep_never_regresses[OF wf_ex_table ex_ops_alone, of 4 6] by simp
  have d: "get (fst (sweep ex_table ex_thresholds 200000)) ''d'' = Some (ex_peer ''d'' Left 70000)"
    using sweep_never_regresses[OF wf_ex_table, of "''d''" "[]" 0 0]
    by (simp add: run_ops_Nil get_ex_table s)
  show ?thesis using wf_ex_table ex_ops_alone e0 e1 ex_run_later m1 m2 d by blast
qed

section \<open>Work distributor: properties\<close>

lemma same_config_refl: "same_config d d"
  by (simp add: same_config_def)

lemma same_config_trans: "same_config a b \<Longrightarrow> same_config b c \<Longrightarrow> same_config a c"
  by (simp add: same_config_def)

lemma resolveTask_config: "same_config d (fst (resolveTask d r))"
  by (cases "findDelegationByTaskId d (task_id r)") (simp_all add: resolveTask_def same_config_def)

lemma fire_timer_config: "same_config d (fire_timer d tm)"
  by (simp add: fire_timer_def same_config_def Let_def)

lemma cancelAll_config: "same_config d (cancelAll d)"
  by (simp add: cancelAll_def same_config_def split_beta)

lemma apply_event_config: "same_config d (apply_event d e)"
  by (cases e) (simp_all add: resolveTask_config fire_timer_config cancelAll_config)

lemma await_promise_config: "same_config d (fst (await_promise d p tm es))"
proof (induction es arbitrary: d)
  case Nil
  show ?case by (simp add: same_config_refl fire_timer_config)
next
  case (Cons e es)
  show ?case
    using same_config_trans[OF apply_event_config[of d e] Cons.IH[of "apply_event d e"]]
    by (simp add: same_config_refl)
qed

lemma register_config: "same_config d (fst (register_delegation d peer tid u now))"
  by (simp add: register_delegation_def same_config_def Let_def)

lemma delegateToPeer_config: "same_config d (fst (delegateToPeer d peer tt sid c env))"
proof (cases "delegateTask env (node_id (identity peer)) tt sid c")
  case (Inl e)
  then show ?thesis by (simp add: delegateToPeer_def same_config_refl)
next
  case (Inr res)
  show ?thesis
  proof (cases "accepted res")
    case False
    then show ?thesis using Inr by (simp add: delegateToPeer_def same_config_refl)
  next
    case True
    obtain d1 p tm where r: "register_delegation d peer (taskId res) (uuid env) (clock env) = (d1, p, tm)"
      by (cases "register_delegation d peer (taskId res) (uuid env) (clock env)") auto
    have c1: "same_config d d1" using register_config[of d peer "taskId res" "uuid env" "clock env"] r
      by simp
    have c2: "same_config d1 (fst (await_promise d1 p tm (events env)))"
      by (rule await_promise_config)
    show ?thesis using Inr True r same_config_trans[OF c1 c2]
      by (simp add: delegateToPeer_def split_beta)
  qed
qed

lemma has_allowlist_Some:
  "tool_allowlist c = Some req \<Longrightarrow> req \<noteq> [] \<Longrightarrow> has_allowlist (Some c)"
  "tool_allowlist c = Some req \<Longrightarrow> required_tools (Some c) = req"
  by (simp_all add: has_allowlist_def required_tools_def)

lemma overlap_iff:
  "list_ex (\<lambda>tool. tool \<in> set caps) req \<longleftrightarrow> set caps \<inter> set req \<noteq> {}"
  by (auto simp: list_ex_iff)

lemma rotation_eq:
  assumes "xs \<noteq> []"
  shows "map (\<lambda>i. xs ! ((r + i) mod length xs)) [0..<length xs] = rotate r xs"
proof (rule nth_equalityI)
  show "length (map (\<lambda>i. xs ! ((r + i) mod length xs)) [0..<length xs]) = length (rotate r xs)"
    by simp
next
  fix i assume "i < length (map (\<lambda>i. xs ! ((r + i) mod length xs)) [0..<length xs])"
  then have i: "i < length xs" by simp
  then show "map (\<lambda>i. xs ! ((r + i) mod length xs)) [0..<length xs] ! i = rotate r xs ! i"
    by (simp add: nth_rotate)
qed

lemma selectPeers_rr:
  assumes "strategy d = round_robin" "actives \<noteq> []"
  shows "selectPeers d c actives =
     (d\<lparr>roundRobinIndex := (roundRobinIndex d + 1) mod length actives\<rparr>,
      rotate (roundRobinIndex d) actives)"
  using assms rotation_eq[OF assms(2), of "roundRobinIndex d"]
  by (simp add: selectPeers_def)

lemma selectPeers_rr_empty:
  assumes "strategy d = round_robin"
  shows "selectPeers d c [] = (d, [])"
  using assms by (simp add: selectPeers_def)

lemma selectPeers_cm_plain:
  assumes "strategy d = capability_match" "\<not> has_allowlist c"
  shows "selectPeers d c actives = (d, actives)"
  using assms by (simp add: selectPeers_def)

lemma hd_rotate_nth: "xs \<noteq> [] \<Longrightarrow> hd (rotate r xs) = xs ! (r mod length xs)"
  by (simp add: hd_rotate_conv_nth)

lemma loop_stop:
  "int attempts \<ge> maxRetries d + 1 \<Longrightarrow>
   distribute_loop d (peer # rest) tt sid c env attempts lastError trace =
     (d, trace, Some (Inl (or_else lastError FailedToDistribute)))"
  by simp

lemma loop_fail:
  "\<not> int attempts \<ge> maxRetries d + 1 \<Longrightarrow>
   delegateToPeer d peer tt sid c (env attempts) = (d', Some (Inl err)) \<Longrightarrow>
   distribute_loop d (peer # rest) tt sid c env attempts lastError trace =
     distribute_loop d' rest tt sid c env (attempts + 1) (Some err)
       (trace @ [(node_id (identity peer), Some (Inl err))])"
  by simp

lemma loop_done:
  "\<not> int attempts \<ge> maxRetries d + 1 \<Longrightarrow>
   delegateToPeer d peer tt sid c (env attempts) = (d', res) \<Longrightarrow>
   \<forall>err. res \<noteq> Some (Inl err) \<Longrightarrow>
   distribute_loop d (peer # rest) tt sid c env attempts lastError trace =
     (d', trace @ [(node_id (identity peer), res)], res)"
  by (cases res) (auto split: sum.splits)

lemma delegateToPeer_maxRetries:
  "delegateToPeer d peer tt sid c e = (d', r) \<Longrightarrow> maxRetries d' = maxRetries d"
  using delegateToPeer_config[of d peer tt sid c e] by (simp add: same_config_def)

lemma distribute_loop_config:
  "same_config d (fst (distribute_loop d cands tt sid c env attempts lastError trace))"
proof (induction cands arbitrary: d attempts lastError trace)
  case Nil
  show ?case by (simp add: same_config_refl)
next
  case (Cons peer rest)
  show ?case
  proof (cases "int attempts \<ge> maxRetries d + 1")
    case True
    then show ?thesis by (simp only: loop_stop fst_conv same_config_refl)
  next
    case False
    obtain d' res where dp: "delegateToPeer d peer tt sid c (env attempts) = (d', res)"
      by (cases "delegateToPeer d peer tt sid c (env attempts)") auto
    have c1: "same_config d d'" using delegateToPeer_config[of d peer tt sid c "env attempts"] dp
      by simp
    show ?thesis
    proof (cases "\<exists>err. res = Some (Inl err)")
      case True
      then obtain err where r: "res = Some (Inl err)" by blast
      show ?thesis
        using same_config_trans[OF c1 Cons.IH[of d' "attempts + 1" "Some err"
              "trace @ [(node_id (identity peer), Some (Inl err))]"]]
        by (simp only: loop_fail[where env=env and attempts=attempts, OF False dp[unfolded r]])
    next
      case F2: False
      then have nf: "\<forall>err. res \<noteq> Some (Inl err)" by blast
      show ?thesis using c1
        by (simp only: loop_done[where env=env and attempts=attempts, OF False dp nf] fst_conv)
    qed
  qed
qed

lemma distribute_loop_trace:
  "\<exists>ext. fst (snd (distribute_loop d cands tt sid c env attempts lastError trace)) = trace @ ext
     \<and> map fst ext = take (length ext) (map (\<lambda>p. node_id (identity p)) cands)
     \<and> int (length ext) \<le> max 0 (maxRetries d + 1 - int attempts)
     \<and> list_all failed_attempt (butlast ext)
     \<and> (ext \<noteq> [] \<longrightarrow>
          snd (last ext) = snd (snd (distribute_loop d cands tt sid c env attempts lastError trace)))
     \<and> (ext = [] \<longrightarrow>
          snd (snd (distribute_loop d cands tt sid c env attempts lastError trace))
            = Some (Inl (or_else lastError FailedToDistribute))
          \<and> (cands = [] \<or> int attempts \<ge> maxRetries d + 1))
     \<and> ((\<exists>e. snd (snd (distribute_loop d cands tt sid c env attempts lastError trace))
                = Some (Inl e)) \<longrightarrow>
          length ext = min (length cands) (nat (maxRetries d + 1 - int attempts)))
     \<and> (\<forall>i < length ext. \<exists>di.
          snd (ext ! i) = snd (delegateToPeer di (cands ! i) tt sid c (env (attempts + i))))"
proof (induction cands arbitrary: d attempts lastError trace)
  case Nil
  show ?case by (intro exI[of _ "[]"]) simp
next
  case (Cons peer rest)
  let ?id = "node_id (identity peer)"
  show ?case
  proof (cases "int attempts \<ge> maxRetries d + 1")
    case True
    show ?thesis
      by (intro exI[of _ "[]"]) (simp add: loop_stop[OF True] True)
  next
    case False
    obtain d' res where dp: "delegateToPeer d peer tt sid c (env attempts) = (d', res)"
      by (cases "delegateToPeer d peer tt sid c (env attempts)") auto
    have mr: "maxRetries d' = maxRetries d" using dp by (rule delegateToPeer_maxRetries)
    show ?thesis
    proof (cases "\<exists>err. res = Some (Inl err)")
      case F2: False
      then have nf: "\<forall>err. res \<noteq> Some (Inl err)" by blast
      have own: "res = snd (delegateToPeer d peer tt sid c (env attempts))" using dp by simp
      show ?thesis
        apply (intro exI[of _ "[(?id, res)]"])
        apply (simp only: loop_done[where env=env and attempts=attempts, OF False dp nf])
        using False nf own apply (auto intro: exI[of _ d])
        done
    next
      case True
      then obtain err where r: "res = Some (Inl err)" by blast
      let ?L = "distribute_loop d' rest tt sid c env (attempts + 1) (Some err)
                  (trace @ [(?id, Some (Inl err))])"
      from Cons.IH[of d' "attempts + 1" "Some err" "trace @ [(?id, Some (Inl err))]"]
      obtain ext where
        e1: "fst (snd ?L) = (trace @ [(?id, Some (Inl err))]) @ ext"
        and e2: "map fst ext = take (length ext) (map (\<lambda>p. node_id (identity p)) rest)"
        and e3: "int (length ext) \<le> max 0 (maxRetries d' + 1 - int (attempts + 1))"
        and e4: "list_all failed_attempt (butlast ext)"
        and e5: "ext \<noteq> [] \<longrightarrow> snd (last ext) = snd (snd ?L)"
        and e6: "ext = [] \<longrightarrow> snd (snd ?L) = Some (Inl (or_else (Some err) FailedToDistribute))
                   \<and> (rest = [] \<or> int (attempts + 1) \<ge> maxRetries d' + 1)"
        and e7: "(\<exists>e. snd (snd ?L) = Some (Inl e)) \<longrightarrow>
                   length ext = min (length rest) (nat (maxRetries d' + 1 - int (attempts + 1)))"
        and e8: "\<forall>i < length ext. \<exists>di.
                   snd (ext ! i) = snd (delegateToPeer di (rest ! i) tt sid c (env (attempts + 1 + i)))"
        by blast
      have step: "distribute_loop d (peer # rest) tt sid c env attempts lastError trace = ?L"
        using loop_fail[where env=env and attempts=attempts, OF False dp[unfolded r]] by simp
      let ?ext = "(?id, Some (Inl err)) # ext"
      have p1: "fst (snd ?L) = trace @ ?ext" using e1 by simp
      have p2: "map fst ?ext = take (length ?ext) (map (\<lambda>p. node_id (identity p)) (peer # rest))"
        using e2 by simp
      have p3: "int (length ?ext) \<le> max 0 (maxRetries d + 1 - int attempts)"
        using e3 False mr by simp
      have fa: "failed_attempt (?id, Some (Inl err))" by (simp add: failed_attempt_def)
      have p4: "list_all failed_attempt (butlast ?ext)" using e4 fa by simp
      have p5: "snd (last ?ext) = snd (snd ?L)"
        using e5 e6 by (cases "ext = []") (simp_all add: or_else_def)
      have p7: "(\<exists>e. snd (snd ?L) = Some (Inl e)) \<longrightarrow>
                   length ?ext = min (length (peer # rest)) (nat (maxRetries d + 1 - int attempts))"
        using e7 False mr by auto
      have p8: "\<forall>i < length ?ext. \<exists>di.
                   snd (?ext ! i) = snd (delegateToPeer di ((peer # rest) ! i) tt sid c (env (attempts + i)))"
      proof (intro allI impI)
        fix i assume i: "i < length ?ext"
        show "\<exists>di. snd (?ext ! i) = snd (delegateToPeer di ((peer # rest) ! i) tt sid c (env (attempts + i)))"
        proof (cases i)
          case 0
          then show ?thesis using dp r by (auto intro: exI[of _ d])
        next
          case (Suc j)
          then have "j < length ext" using i by simp
          then show ?thesis using e8 Suc by simp
        qed
      qed
      show ?thesis
        apply (intro exI[of _ ?ext])
        apply (simp only: step)
        using p1 p2 p3 p4 p5 p7 p8 apply blast
        done
    qed
  qed
qed

lemma length_resolve_promise: "length (resolve_promise p v ps) = length ps"
  by (simp add: resolve_promise_def)

lemma length_reject_promise: "length (reject_promise p e ps) = length ps"
  by (simp add: reject_promise_def)

lemma length_clearTimeout: "length (clearTimeout tm ts) = length ts"
  by (simp add: clearTimeout_def)

lemma nth_resolve_promise:
  "q < length ps \<Longrightarrow>
   resolve_promise p v ps ! q = (if q = p \<and> ps ! p = Pending then Fulfilled v else ps ! q)"
  by (simp add: resolve_promise_def nth_list_update)

lemma nth_reject_promise:
  "q < length ps \<Longrightarrow>
   reject_promise p e ps ! q = (if q = p \<and> ps ! p = Pending then Rejected e else ps ! q)"
  by (simp add: reject_promise_def nth_list_update)

lemma nth_clearTimeout:
  "q < length ts \<Longrightarrow>
   clearTimeout tm ts ! q =
     (if q = tm \<and> t_state (ts ! tm) = Armed then (ts ! tm)\<lparr>t_state := Cleared\<rparr> else ts ! q)"
  by (simp add: clearTimeout_def nth_list_update)

lemma set_delete_subset: "set (AList.delete k m) \<subseteq> set m"
  by (auto simp: AList.delete_eq)

lemma list_all_delete: "list_all P m \<Longrightarrow> list_all P (AList.delete k m)"
  using set_delete_subset[of k m] by (auto simp: list_all_iff)

lemma own_timer_settle:
  assumes own: "own_timer d p tm"
    and dl: "set m' \<subseteq> set (activeDelegations d)"
    and ps: "length ps' = length (promises d)"
            "\<And>q. q < length (promises d) \<Longrightarrow> ps' ! q = Pending \<Longrightarrow> promises d ! q = Pending"
    and ts: "length ts' = length (timers d)"
            "\<And>q. q < length (timers d) \<Longrightarrow> t_promise (ts' ! q) = t_promise (timers d ! q)"
    and arm: "ps' ! p = Pending \<Longrightarrow> t_state (timers d ! tm) = Armed \<Longrightarrow> t_state (ts' ! tm) = Armed"
  shows "own_timer (d\<lparr>timers := ts', activeDelegations := m', promises := ps'\<rparr>) p tm"
  using assms unfolding own_timer_def list_all_iff by auto

lemma resolveTask_own:
  assumes own: "own_timer d p tm"
  shows "own_timer (fst (resolveTask d r)) p tm"
proof (cases "findDelegationByTaskId d (task_id r)")
  case None
  then show ?thesis using own by (simp add: resolveTask_def)
next
  case (Some del)
  then have mem: "(task_id r, del) \<in> set (activeDelegations d)"
    by (simp add: findDelegationByTaskId_def map_of_SomeD)
  have link: "timer del = tm \<Longrightarrow> promise del = p"
    using own mem by (auto simp: own_timer_def list_all_iff)
  have pl: "p < length (promises d)" and tl: "tm < length (timers d)"
    using own by (simp_all add: own_timer_def)
  have "own_timer (d\<lparr>timers := clearTimeout (timer del) (timers d),
                     activeDelegations := AList.delete (d_task_id del) (activeDelegations d),
                     promises := resolve_promise (promise del) r (promises d)\<rparr>) p tm"
  proof (rule own_timer_settle[OF own])
    show "set (AList.delete (d_task_id del) (activeDelegations d)) \<subseteq> set (activeDelegations d)"
      by (rule set_delete_subset)
    show "length (resolve_promise (promise del) r (promises d)) = length (promises d)"
      by (rule length_resolve_promise)
    show "length (clearTimeout (timer del) (timers d)) = length (timers d)"
      by (rule length_clearTimeout)
  next
    fix q assume "q < length (promises d)" "resolve_promise (promise del) r (promises d) ! q = Pending"
    then show "promises d ! q = Pending" by (simp add: nth_resolve_promise split: if_splits)
  next
    fix q assume "q < length (timers d)"
    then show "t_promise (clearTimeout (timer del) (timers d) ! q) = t_promise (timers d ! q)"
      by (simp add: nth_clearTimeout)
  next
    assume a: "resolve_promise (promise del) r (promises d) ! p = Pending"
      and b: "t_state (timers d ! tm) = Armed"
    have "timer del \<noteq> tm"
    proof
      assume "timer del = tm"
      then have "promise del = p" by (rule link)
      then show False using a pl by (simp add: nth_resolve_promise split: if_splits)
    qed
    then show "t_state (clearTimeout (timer del) (timers d) ! tm) = Armed"
      using b tl by (simp add: nth_clearTimeout)
  qed
  then show ?thesis using Some by (simp add: resolveTask_def)
qed

lemma fire_timer_own:
  assumes own: "own_timer d p tm"
  shows "own_timer (fire_timer d tm') p tm"
proof (cases "tm' < length (timers d) \<and> t_state (timers d ! tm') = Armed")
  case False
  then show ?thesis using own by (auto simp: fire_timer_def)
next
  case True
  let ?t = "timers d ! tm'"
  have pl: "p < length (promises d)" and tl: "tm < length (timers d)"
    and tp: "t_promise (timers d ! tm) = p"
    using own by (simp_all add: own_timer_def)
  have "own_timer (d\<lparr>timers := (timers d)[tm' := ?t\<lparr>t_state := Fired\<rparr>],
                     activeDelegations := AList.delete (t_taskId ?t) (activeDelegations d),
                     promises := reject_promise (t_promise ?t)
                        (DelegationTimedOut (t_peer ?t) (delegationTimeoutMs d)) (promises d)\<rparr>) p tm"
  proof (rule own_timer_settle[OF own])
    show "set (AList.delete (t_taskId ?t) (activeDelegations d)) \<subseteq> set (activeDelegations d)"
      by (rule set_delete_subset)
    show "length (reject_promise (t_promise ?t)
            (DelegationTimedOut (t_peer ?t) (delegationTimeoutMs d)) (promises d)) = length (promises d)"
      by (rule length_reject_promise)
    show "length ((timers d)[tm' := ?t\<lparr>t_state := Fired\<rparr>]) = length (timers d)" by simp
  next
    fix q assume "q < length (promises d)"
      "reject_promise (t_promise ?t) (DelegationTimedOut (t_peer ?t) (delegationTimeoutMs d))
         (promises d) ! q = Pending"
    then show "promises d ! q = Pending" by (simp add: nth_reject_promise split: if_splits)
  next
    fix q assume "q < length (timers d)"
    then show "t_promise ((timers d)[tm' := ?t\<lparr>t_state := Fired\<rparr>] ! q) = t_promise (timers d ! q)"
      by (cases "q = tm'") simp_all
  next
    assume a: "reject_promise (t_promise ?t) (DelegationTimedOut (t_peer ?t) (delegationTimeoutMs d))
         (promises d) ! p = Pending"
      and b: "t_state (timers d ! tm) = Armed"
    have "tm' \<noteq> tm"
    proof
      assume "tm' = tm"
      then have "t_promise ?t = p" using tp by simp
      then show False using a pl by (simp add: nth_reject_promise split: if_splits)
    qed
    then show "t_state ((timers d)[tm' := ?t\<lparr>t_state := Fired\<rparr>] ! tm) = Armed"
      using b by simp
  qed
  then show ?thesis using True by (simp add: fire_timer_def Let_def)
qed

lemma cancel_loop_own:
  assumes "p < length ps" "tm < length ts" "t_promise (ts ! tm) = p"
    and "list_all (\<lambda>e. timer (snd e) = tm \<longrightarrow> promise (snd e) = p) m"
    and "ps ! p = Pending \<longrightarrow> t_state (ts ! tm) = Armed"
  shows "p < length (snd (cancel_loop m (ts, ps))) \<and> tm < length (fst (cancel_loop m (ts, ps)))
     \<and> t_promise (fst (cancel_loop m (ts, ps)) ! tm) = p
     \<and> (snd (cancel_loop m (ts, ps)) ! p = Pending \<longrightarrow>
          t_state (fst (cancel_loop m (ts, ps)) ! tm) = Armed)"
  using assms
proof (induction m arbitrary: ts ps)
  case Nil
  then show ?case by simp
next
  case (Cons e m)
  obtain k del where e: "e = (k, del)" by (cases e)
  let ?ts = "clearTimeout (timer del) ts"
  let ?ps = "reject_promise (promise del) DelegationCancelled ps"
  have link: "timer del = tm \<Longrightarrow> promise del = p" using Cons.prems(4) e by simp
  have 1: "p < length ?ps" using Cons.prems(1) by (simp add: length_reject_promise)
  have 2: "tm < length ?ts" using Cons.prems(2) by (simp add: length_clearTimeout)
  have 3: "t_promise (?ts ! tm) = p" using Cons.prems(2,3) by (auto simp: nth_clearTimeout)
  have 4: "list_all (\<lambda>e. timer (snd e) = tm \<longrightarrow> promise (snd e) = p) m"
    using Cons.prems(4) by simp
  have 5: "?ps ! p = Pending \<longrightarrow> t_state (?ts ! tm) = Armed"
  proof
    assume a: "?ps ! p = Pending"
    then have pp: "ps ! p = Pending" using Cons.prems(1) by (simp add: nth_reject_promise split: if_splits)
    have "timer del \<noteq> tm"
    proof
      assume "timer del = tm"
      then have "promise del = p" by (rule link)
      then show False using a pp Cons.prems(1) by (simp add: nth_reject_promise)
    qed
    then show "t_state (?ts ! tm) = Armed"
      using pp Cons.prems(2,5) by (simp add: nth_clearTimeout)
  qed
  show ?case using Cons.IH[OF 1 2 3 4 5] e by simp
qed

lemma cancelAll_own:
  assumes own: "own_timer d p tm"
  shows "own_timer (cancelAll d) p tm"
proof -
  have "p < length (promises d)" "tm < length (timers d)" "t_promise (timers d ! tm) = p"
    "list_all (\<lambda>e. timer (snd e) = tm \<longrightarrow> promise (snd e) = p) (activeDelegations d)"
    "promises d ! p = Pending \<longrightarrow> t_state (timers d ! tm) = Armed"
    using own by (simp_all add: own_timer_def)
  from cancel_loop_own[OF this] show ?thesis
    by (simp add: cancelAll_def own_timer_def split_beta)
qed

lemma apply_event_own: "own_timer d p tm \<Longrightarrow> own_timer (apply_event d e) p tm"
  by (cases e) (simp_all add: resolveTask_own fire_timer_own cancelAll_own)

lemma fire_own_timer_settles:
  assumes own: "own_timer d p tm"
  shows "promises (fire_timer d tm) ! p \<noteq> Pending"
proof (cases "promises d ! p = Pending")
  case True
  then have "t_state (timers d ! tm) = Armed" "tm < length (timers d)" "p < length (promises d)"
    "t_promise (timers d ! tm) = p"
    using own by (simp_all add: own_timer_def)
  then show ?thesis using True
    by (simp add: fire_timer_def Let_def nth_reject_promise)
next
  case False
  have "own_timer (fire_timer d tm) p tm" using own by (rule fire_timer_own)
  have "p < length (promises d)" using own by (simp add: own_timer_def)
  then show ?thesis using False
    by (auto simp: fire_timer_def Let_def nth_reject_promise)
qed

lemma await_promise_settles:
  "own_timer d p tm \<Longrightarrow> snd (await_promise d p tm es) \<noteq> Pending"
proof (induction es arbitrary: d)
  case Nil
  then show ?case using fire_own_timer_settles[OF Nil] by simp
next
  case (Cons e es)
  show ?case using Cons.IH[OF apply_event_own[OF Cons.prems]] by simp
qed

lemma set_update_subset: "set (AList.update k v m) \<subseteq> insert (k, v) (set m)"
  by (induction m) auto

lemma list_all_update: "P (k, v) \<Longrightarrow> list_all P m \<Longrightarrow> list_all P (AList.update k v m)"
  using set_update_subset[of k v m] by (auto simp: list_all_iff)

lemma register_eq:
  "register_delegation d peer tid u now =
     (d\<lparr>promises := promises d @ [Pending],
        timers := timers d @ [\<lparr>t_state = Armed, t_taskId = tid, t_promise = length (promises d),
                               t_peer = node_id (identity peer)\<rparr>],
        activeDelegations := AList.update tid
           \<lparr>d_task_id = tid, d_peer_node_id = node_id (identity peer), d_correlation_id = u,
            sent_at = now, timeout_ms = delegationTimeoutMs d, promise = length (promises d),
            timer = length (timers d)\<rparr> (activeDelegations d)\<rparr>,
      length (promises d), length (timers d))"
  by (simp add: register_delegation_def Let_def)

lemma register_in_range:
  assumes "timers_in_range d"
  shows "timers_in_range (fst (register_delegation d peer tid u now))"
proof -
  have "list_all (\<lambda>e. timer (snd e) < Suc (length (timers d))) (activeDelegations d)"
    using assms by (auto simp: timers_in_range_def list_all_iff)
  then show ?thesis
    by (simp add: register_eq timers_in_range_def list_all_update)
qed

lemma register_own:
  assumes "timers_in_range d"
  shows "own_timer (fst (register_delegation d peer tid u now))
           (length (promises d)) (length (timers d))"
proof -
  have "list_all (\<lambda>e. timer (snd e) = length (timers d) \<longrightarrow> promise (snd e) = length (promises d))
          (activeDelegations d)"
    using assms by (auto simp: timers_in_range_def list_all_iff)
  then show ?thesis
    by (simp add: register_eq own_timer_def list_all_update)
qed

lemma resolveTask_in_range: "timers_in_range d \<Longrightarrow> timers_in_range (fst (resolveTask d r))"
  by (cases "findDelegationByTaskId d (task_id r)")
     (simp_all add: resolveTask_def timers_in_range_def length_clearTimeout list_all_delete)

lemma fire_timer_in_range: "timers_in_range d \<Longrightarrow> timers_in_range (fire_timer d tm)"
  by (simp add: fire_timer_def timers_in_range_def Let_def list_all_delete)

lemma cancelAll_in_range: "timers_in_range (cancelAll d)"
  by (simp add: cancelAll_def timers_in_range_def split_beta)

lemma apply_event_in_range: "timers_in_range d \<Longrightarrow> timers_in_range (apply_event d e)"
  by (cases e) (simp_all add: resolveTask_in_range fire_timer_in_range cancelAll_in_range)

lemma await_promise_in_range:
  "timers_in_range d \<Longrightarrow> timers_in_range (fst (await_promise d p tm es))"
proof (induction es arbitrary: d)
  case Nil
  then show ?case by (simp add: fire_timer_in_range)
next
  case (Cons e es)
  show ?case using Cons.IH[OF apply_event_in_range[OF Cons.prems]] Cons.prems by simp
qed

lemma delegateToPeer_threw:
  "delegateTask env (node_id (identity peer)) tt sid c = Inl e \<Longrightarrow>
   delegateToPeer d peer tt sid c env = (d, Some (Inl e))"
  by (simp add: delegateToPeer_def)

lemma delegateToPeer_rejected:
  "delegateTask env (node_id (identity peer)) tt sid c = Inr r \<Longrightarrow> \<not> accepted r \<Longrightarrow>
   delegateToPeer d peer tt sid c env =
     (d, Some (Inl (PeerRejected (node_id (identity peer)) (reason r))))"
  by (simp add: delegateToPeer_def)

lemma delegateToPeer_accepted:
  assumes "delegateTask env (node_id (identity peer)) tt sid c = Inr r" "accepted r"
  shows "delegateToPeer d peer tt sid c env =
     (fst (await_promise (fst (register_delegation d peer (taskId r) (uuid env) (clock env)))
             (length (promises d)) (length (timers d)) (events env)),
      case snd (await_promise (fst (register_delegation d peer (taskId r) (uuid env) (clock env)))
             (length (promises d)) (length (timers d)) (events env)) of
        Pending \<Rightarrow> None | Fulfilled v \<Rightarrow> Some (Inr v) | Rejected e \<Rightarrow> Some (Inl e))"
  using assms by (simp add: delegateToPeer_def register_eq split_beta)

lemma delegateToPeer_in_range:
  assumes "timers_in_range d"
  shows "timers_in_range (fst (delegateToPeer d peer tt sid c env))"
proof (cases "delegateTask env (node_id (identity peer)) tt sid c")
  case (Inl e)
  then show ?thesis using assms by (simp add: delegateToPeer_threw)
next
  case (Inr r)
  show ?thesis
  proof (cases "accepted r")
    case False
    then show ?thesis using assms Inr by (simp add: delegateToPeer_rejected)
  next
    case True
    show ?thesis
      using await_promise_in_range[OF register_in_range[OF assms]]
      by (simp add: delegateToPeer_accepted[OF Inr True])
  qed
qed

lemma delegateToPeer_returns:
  assumes "timers_in_range d"
  shows "snd (delegateToPeer d peer tt sid c env) \<noteq> None"
proof (cases "delegateTask env (node_id (identity peer)) tt sid c")
  case (Inl e)
  then show ?thesis by (simp add: delegateToPeer_threw)
next
  case (Inr r)
  show ?thesis
  proof (cases "accepted r")
    case False
    then show ?thesis using Inr by (simp add: delegateToPeer_rejected)
  next
    case True
    let ?st = "snd (await_promise (fst (register_delegation d peer (taskId r) (uuid env) (clock env)))
             (length (promises d)) (length (timers d)) (events env))"
    have "?st \<noteq> Pending"
      using await_promise_settles[OF register_own[OF assms]] by simp
    then show ?thesis
      by (cases ?st) (simp_all add: delegateToPeer_accepted[OF Inr True])
  qed
qed

lemma delete_update_same: "AList.delete k (AList.update k v m) = AList.delete k m"
  by (induction m) auto

lemma delegateToPeer_timeout:
  assumes "delegateTask env (node_id (identity peer)) tt sid c = Inr r" "accepted r"
    and "events env = []"
  shows "snd (delegateToPeer d peer tt sid c env) =
           Some (Inl (DelegationTimedOut (node_id (identity peer)) (delegationTimeoutMs d)))"
    and "activeDelegations (fst (delegateToPeer d peer tt sid c env)) =
           AList.delete (taskId r) (activeDelegations d)"
  using assms(3)
  by (simp_all add: delegateToPeer_accepted[OF assms(1,2)] register_eq fire_timer_def Let_def
        nth_append reject_promise_def delete_update_same)

lemma cancel_loop_lengths:
  "length (fst (cancel_loop m (ts, ps))) = length ts \<and> length (snd (cancel_loop m (ts, ps))) = length ps"
proof (induction m arbitrary: ts ps)
  case Nil show ?case by simp
next
  case (Cons e m)
  obtain k del where e: "e = (k, del)" by (cases e)
  show ?case unfolding e by (simp add: Cons.IH length_clearTimeout length_reject_promise)
qed

lemma cancel_loop_promise:
  "q < length ps \<Longrightarrow>
   snd (cancel_loop m (ts, ps)) ! q =
     (if ps ! q = Pending \<and> q \<in> (\<lambda>e. promise (snd e)) ` set m then Rejected DelegationCancelled
      else ps ! q)"
proof (induction m arbitrary: ts ps)
  case Nil show ?case by simp
next
  case (Cons e m)
  obtain k del where e: "e = (k, del)" by (cases e)
  let ?ps = "reject_promise (promise del) DelegationCancelled ps"
  have l: "q < length ?ps" using Cons.prems by (simp add: length_reject_promise)
  show ?case unfolding e using Cons.IH[OF l] Cons.prems
    by (auto simp: nth_reject_promise)
qed

lemma cancel_loop_timer:
  "q < length ts \<Longrightarrow>
   fst (cancel_loop m (ts, ps)) ! q =
     (if t_state (ts ! q) = Armed \<and> q \<in> (\<lambda>e. timer (snd e)) ` set m
      then (ts ! q)\<lparr>t_state := Cleared\<rparr> else ts ! q)"
proof (induction m arbitrary: ts ps)
  case Nil show ?case by simp
next
  case (Cons e m)
  obtain k del where e: "e = (k, del)" by (cases e)
  let ?ts = "clearTimeout (timer del) ts"
  have l: "q < length ?ts" using Cons.prems by (simp add: length_clearTimeout)
  show ?case unfolding e using Cons.IH[OF l] Cons.prems
    by (auto simp: nth_clearTimeout)
qed

lemma await_settled:
  "promises d ! p \<noteq> Pending \<Longrightarrow> await_promise d p tm es = (d, promises d ! p)"
  by (cases es) simp_all

lemma delegateToPeer_cancelled:
  assumes "delegateTask env (node_id (identity peer)) tt sid c = Inr r" "accepted r"
    and "events env = CancelAllCalled # es"
  shows "snd (delegateToPeer d peer tt sid c env) = Some (Inl DelegationCancelled)"
proof -
  let ?d1 = "fst (register_delegation d peer (taskId r) (uuid env) (clock env))"
  let ?p = "length (promises d)"
  have pl: "?p < length (promises ?d1)" and pp: "promises ?d1 ! ?p = Pending"
    by (simp_all add: register_eq)
  have "map_of (activeDelegations ?d1) (taskId r) \<noteq> None"
    by (simp add: register_eq map_of_update_same)
  then obtain del where m: "map_of (activeDelegations ?d1) (taskId r) = Some del" by blast
  then have "promise del = ?p" by (auto simp: register_eq map_of_update_same)
  then have "?p \<in> (\<lambda>e. promise (snd e)) ` set (activeDelegations ?d1)"
    using map_of_SomeD[OF m] by force
  then have c: "promises (cancelAll ?d1) ! ?p = Rejected DelegationCancelled"
    using pl pp by (simp add: cancelAll_def split_beta cancel_loop_promise)
  have "await_promise ?d1 ?p (length (timers d)) (events env)
          = (cancelAll ?d1, Rejected DelegationCancelled)"
    using assms(3) pp c await_settled[of "cancelAll ?d1" ?p "length (timers d)" es] by simp
  then show ?thesis by (simp add: delegateToPeer_accepted[OF assms(1,2)])
qed

lemma delegateToPeer_resolved:
  assumes "delegateTask env (node_id (identity peer)) tt sid c = Inr r" "accepted r"
    and "events env = ResultPosted res # es" "task_id res = taskId r"
  shows "snd (delegateToPeer d peer tt sid c env) = Some (Inr res)"
    and "activeDelegations (fst (delegateToPeer d peer tt sid c env)) =
           AList.delete (taskId r) (activeDelegations d)"
proof -
  let ?d1 = "fst (register_delegation d peer (taskId r) (uuid env) (clock env))"
  let ?p = "length (promises d)"
  let ?d2 = "fst (resolveTask ?d1 res)"
  have pp: "promises ?d1 ! ?p = Pending" by (simp add: register_eq)
  have d2: "promises ?d2 ! ?p = Fulfilled res
            \<and> activeDelegations ?d2 = AList.delete (taskId r) (activeDelegations d)"
    using assms(4)
    by (simp add: register_eq resolveTask_def findDelegationByTaskId_def map_of_update_same
          resolve_promise_def delete_update_same)
  have "await_promise ?d1 ?p (length (timers d)) (events env) = (?d2, Fulfilled res)"
    using assms(3) pp d2 await_settled[of ?d2 ?p "length (timers d)" es] by simp
  then show "snd (delegateToPeer d peer tt sid c env) = Some (Inr res)"
    and "activeDelegations (fst (delegateToPeer d peer tt sid c env)) =
           AList.delete (taskId r) (activeDelegations d)"
    using d2 by (simp_all add: delegateToPeer_accepted[OF assms(1,2)])
qed

lemma distribute_loop_returns:
  "timers_in_range d \<Longrightarrow>
   snd (snd (distribute_loop d cands tt sid c env attempts lastError trace)) \<noteq> None"
proof (induction cands arbitrary: d attempts lastError trace)
  case Nil
  show ?case by simp
next
  case (Cons peer rest)
  show ?case
  proof (cases "int attempts \<ge> maxRetries d + 1")
    case True
    then show ?thesis by (simp add: loop_stop del: distribute_loop.simps)
  next
    case False
    obtain d' res where dp: "delegateToPeer d peer tt sid c (env attempts) = (d', res)"
      by (cases "delegateToPeer d peer tt sid c (env attempts)") auto
    have r': "timers_in_range d'"
      using delegateToPeer_in_range[OF Cons.prems, of peer tt sid c "env attempts"] dp by simp
    have nn: "res \<noteq> None"
      using delegateToPeer_returns[OF Cons.prems, of peer tt sid c "env attempts"] dp by simp
    show ?thesis
    proof (cases "\<exists>err. res = Some (Inl err)")
      case True
      then obtain err where r: "res = Some (Inl err)" by blast
      show ?thesis
        using Cons.IH[OF r', of "attempts + 1" "Some err"
                "trace @ [(node_id (identity peer), Some (Inl err))]"]
        by (simp add: loop_fail[where env=env and attempts=attempts, OF False dp[unfolded r]]
              del: distribute_loop.simps)
    next
      case F2: False
      then have nf: "\<forall>err. res \<noteq> Some (Inl err)" by blast
      show ?thesis using nn
        by (simp add: loop_done[where env=env and attempts=attempts, OF False dp nf]
              del: distribute_loop.simps)
    qed
  qed
qed

lemma selectPeers_config_but_index:
  "strategy (fst (selectPeers d c actives)) = strategy d
   \<and> maxRetries (fst (selectPeers d c actives)) = maxRetries d
   \<and> delegationTimeoutMs (fst (selectPeers d c actives)) = delegationTimeoutMs d
   \<and> activeDelegations (fst (selectPeers d c actives)) = activeDelegations d
   \<and> promises (fst (selectPeers d c actives)) = promises d
   \<and> timers (fst (selectPeers d c actives)) = timers d"
  by (simp add: selectPeers_def Let_def)

lemma selectPeers_in_range:
  "timers_in_range d \<Longrightarrow> timers_in_range (fst (selectPeers d c actives))"
  by (simp add: timers_in_range_def selectPeers_config_but_index)

lemma distribute_empty:
  "snd (selectPeers d c actives) = [] \<Longrightarrow>
   distribute d tt sid c actives env = (fst (selectPeers d c actives), [], Some (Inl NoSuitablePeers))"
  by (simp add: distribute_def split_beta)

lemma distribute_nonempty:
  "snd (selectPeers d c actives) \<noteq> [] \<Longrightarrow>
   distribute d tt sid c actives env =
     distribute_loop (fst (selectPeers d c actives)) (snd (selectPeers d c actives))
       tt sid c env 0 None []"
  by (simp add: distribute_def split_beta)

lemma distribute_first_attempt:
  assumes ne: "snd (selectPeers d c actives) \<noteq> []" and mr: "0 \<le> maxRetries d"
  shows "fst (snd (distribute d tt sid c actives env)) \<noteq> []
    \<and> fst (hd (fst (snd (distribute d tt sid c actives env))))
        = node_id (identity (hd (snd (selectPeers d c actives))))"
proof -
  let ?d1 = "fst (selectPeers d c actives)"
  let ?cands = "snd (selectPeers d c actives)"
  let ?L = "distribute_loop ?d1 ?cands tt sid c env 0 None []"
  have mr1: "maxRetries ?d1 = maxRetries d" by (simp add: selectPeers_config_but_index)
  from distribute_loop_trace[of ?d1 ?cands tt sid c env 0 None "[]"]
  obtain ext where
    e1: "fst (snd ?L) = ext"
    and e2: "map fst ext = take (length ext) (map (\<lambda>p. node_id (identity p)) ?cands)"
    and e6: "ext = [] \<longrightarrow> (?cands = [] \<or> 0 \<ge> maxRetries d + 1)"
    unfolding mr1 by auto
  have n: "ext \<noteq> []" using e6 ne mr by auto
  then obtain a ext' where ex: "ext = a # ext'" by (cases ext) auto
  obtain p ps where cs: "?cands = p # ps" using ne by (cases ?cands) auto
  have "fst a = node_id (identity p)" using e2 unfolding ex cs by simp
  then show ?thesis
    unfolding distribute_nonempty[OF ne] e1 using ex cs by simp
qed

lemma distribute_config:
  "same_config (fst (selectPeers d c actives)) (fst (distribute d tt sid c actives env))"
proof (cases "snd (selectPeers d c actives) = []")
  case True
  then show ?thesis by (simp add: distribute_empty same_config_refl)
next
  case False
  show ?thesis unfolding distribute_nonempty[OF False] by (rule distribute_loop_config)
qed

lemma distribute_calls_firsts:
  assumes "strategy d = round_robin" "actives \<noteq> []" "0 \<le> maxRetries d"
  shows "list_all (\<lambda>tr. tr \<noteq> []) (distribute_calls d tt sid c actives envs)
    \<and> map (\<lambda>tr. fst (hd tr)) (distribute_calls d tt sid c actives envs) =
        map (\<lambda>k. node_id (identity (actives ! ((roundRobinIndex d + k) mod length actives))))
          [0..<length envs]"
  using assms
proof (induction envs arbitrary: d)
  case Nil
  show ?case by simp
next
  case (Cons env envs)
  let ?N = "length actives"
  let ?r = "roundRobinIndex d"
  obtain d' trace res where dd: "distribute d tt sid c actives env = (d', trace, res)"
    by (cases "distribute d tt sid c actives env") auto
  have sel: "selectPeers d c actives =
     (d\<lparr>roundRobinIndex := (?r + 1) mod ?N\<rparr>, rotate ?r actives)"
    using Cons.prems by (simp add: selectPeers_rr)
  have ne: "snd (selectPeers d c actives) \<noteq> []" using sel Cons.prems(2) by simp
  have first: "trace \<noteq> [] \<and> fst (hd trace) = node_id (identity (actives ! (?r mod ?N)))"
    using distribute_first_attempt[OF ne Cons.prems(3), of tt sid env] dd sel Cons.prems(2)
    by (simp add: hd_rotate_nth)
  have cfg: "same_config (d\<lparr>roundRobinIndex := (?r + 1) mod ?N\<rparr>) d'"
    using distribute_config[of d c actives tt sid env] dd sel by simp
  then have d': "strategy d' = round_robin" "0 \<le> maxRetries d'"
    "roundRobinIndex d' = (?r + 1) mod ?N"
    using Cons.prems by (simp_all add: same_config_def)
  have ih: "list_all (\<lambda>tr. tr \<noteq> []) (distribute_calls d' tt sid c actives envs)
    \<and> map (\<lambda>tr. fst (hd tr)) (distribute_calls d' tt sid c actives envs) =
        map (\<lambda>k. node_id (identity (actives ! (((?r + 1) mod ?N + k) mod ?N))))
          [0..<length envs]"
    using Cons.IH[OF d'(1) Cons.prems(2) d'(2)] d'(3) by simp
  have shift: "\<And>k. (Suc ?r mod ?N + k) mod ?N = Suc (?r + k) mod ?N"
    by (simp add: mod_add_left_eq)
  have upt: "[0..<length (env # envs)] = 0 # map Suc [0..<length envs]"
    by (simp add: upt_conv_Cons map_Suc_upt del: upt_Suc)
  show ?case
    unfolding upt using first ih dd by (simp add: shift o_def)
qed

lemma firsts_as_rotation:
  assumes "actives \<noteq> []"
  shows "map (\<lambda>k. node_id (identity (actives ! ((r + k) mod length actives)))) [0..<length actives]
       = map (\<lambda>p. node_id (identity p)) (rotate r actives)"
proof -
  have "map (\<lambda>k. node_id (identity (actives ! ((r + k) mod length actives)))) [0..<length actives]
      = map (\<lambda>p. node_id (identity p)) (map (\<lambda>k. actives ! ((r + k) mod length actives)) [0..<length actives])"
    by (simp add: o_def)
  then show ?thesis using rotation_eq[OF assms, of r] by simp
qed

lemma wf_distributor_iff:
  "wf_distributor d \<longleftrightarrow>
     (distinct (map fst (activeDelegations d))
      \<and> (\<forall>e \<in> set (activeDelegations d). wf_delegation d e)
      \<and> distinct (map (\<lambda>e. promise (snd e)) (activeDelegations d))
      \<and> distinct (map (\<lambda>e. timer (snd e)) (activeDelegations d))
      \<and> (\<forall>p < length (promises d). promises d ! p = Pending \<longrightarrow>
            (\<exists>e \<in> set (activeDelegations d). promise (snd e) = p))
      \<and> (\<forall>tm < length (timers d). t_state (timers d ! tm) = Armed \<longrightarrow>
            (\<exists>e \<in> set (activeDelegations d). timer (snd e) = tm)))"
  unfolding wf_distributor_def wf_map_def list_all_iff by auto

lemma set_delete: "set (AList.delete k m) = {e \<in> set m. fst e \<noteq> k}"
  by (auto simp: AList.delete_eq)

lemma distinct_map_inj:
  "distinct (map f xs) \<Longrightarrow> x \<in> set xs \<Longrightarrow> y \<in> set xs \<Longrightarrow> f x = f y \<Longrightarrow> x = y"
  by (meson distinct_map inj_onD)

lemma distinct_map_delete: "distinct (map f m) \<Longrightarrow> distinct (map f (AList.delete k m))"
  by (simp add: AList.delete_eq distinct_map_filter)

lemma wf_remove:
  assumes wf: "wf_distributor d"
    and mem: "(k, del) \<in> set (activeDelegations d)"
    and tl: "length ts' = length (timers d)"
    and tq: "\<And>q. q < length (timers d) \<Longrightarrow> q \<noteq> timer del \<Longrightarrow> ts' ! q = timers d ! q"
    and ta: "t_state (ts' ! timer del) \<noteq> Armed"
    and pl: "length ps' = length (promises d)"
    and pq: "\<And>q. q < length (promises d) \<Longrightarrow> q \<noteq> promise del \<Longrightarrow> ps' ! q = promises d ! q"
    and pa: "ps' ! promise del \<noteq> Pending"
  shows "wf_distributor (d\<lparr>timers := ts',
            activeDelegations := AList.delete k (activeDelegations d), promises := ps'\<rparr>)"
proof -
  let ?m = "activeDelegations d"
  let ?d' = "d\<lparr>timers := ts', activeDelegations := AList.delete k ?m, promises := ps'\<rparr>"
  from wf have dk: "distinct (map fst ?m)"
    and wd: "\<And>e. e \<in> set ?m \<Longrightarrow> wf_delegation d e"
    and dp: "distinct (map (\<lambda>e. promise (snd e)) ?m)"
    and dt: "distinct (map (\<lambda>e. timer (snd e)) ?m)"
    and tp: "\<And>p. p < length (promises d) \<Longrightarrow> promises d ! p = Pending \<Longrightarrow>
               \<exists>e \<in> set ?m. promise (snd e) = p"
    and tt: "\<And>tm. tm < length (timers d) \<Longrightarrow> t_state (timers d ! tm) = Armed \<Longrightarrow>
               \<exists>e \<in> set ?m. timer (snd e) = tm"
    unfolding wf_distributor_iff by blast+
  have other: "\<And>e. e \<in> set ?m \<Longrightarrow> fst e \<noteq> k \<Longrightarrow>
                  promise (snd e) \<noteq> promise del \<and> timer (snd e) \<noteq> timer del"
  proof -
    fix e assume e: "e \<in> set ?m" "fst e \<noteq> k"
    then have ne: "e \<noteq> (k, del)" by auto
    have "promise (snd e) \<noteq> promise del"
      using distinct_map_inj[OF dp e(1) mem] ne by auto
    moreover have "timer (snd e) \<noteq> timer del"
      using distinct_map_inj[OF dt e(1) mem] ne by auto
    ultimately show "promise (snd e) \<noteq> promise del \<and> timer (snd e) \<noteq> timer del" by simp
  qed
  have same_key: "\<And>e. e \<in> set ?m \<Longrightarrow> fst e = k \<Longrightarrow> e = (k, del)"
    using distinct_map_inj[OF dk _ mem] by auto
  have 1: "distinct (map fst (AList.delete k ?m))" using dk by (rule distinct_map_delete)
  have 2: "\<forall>e \<in> set (AList.delete k ?m). wf_delegation ?d' e"
  proof
    fix e assume "e \<in> set (AList.delete k ?m)"
    then have e: "e \<in> set ?m" "fst e \<noteq> k" by (simp_all add: set_delete)
    from wd[OF e(1)] other[OF e] show "wf_delegation ?d' e"
      by (simp add: wf_delegation_def tl pl tq pq)
  qed
  have 3: "distinct (map (\<lambda>e. promise (snd e)) (AList.delete k ?m))"
    using dp by (rule distinct_map_delete)
  have 4: "distinct (map (\<lambda>e. timer (snd e)) (AList.delete k ?m))"
    using dt by (rule distinct_map_delete)
  have 5: "\<forall>p < length ps'. ps' ! p = Pending \<longrightarrow>
              (\<exists>e \<in> set (AList.delete k ?m). promise (snd e) = p)"
  proof (intro allI impI)
    fix p assume p: "p < length ps'" "ps' ! p = Pending"
    then have np: "p \<noteq> promise del" using pa by auto
    then have "promises d ! p = Pending" using p pq pl by simp
    then have "\<exists>e \<in> set ?m. promise (snd e) = p" using tp[of p] p(1) pl by simp
    then obtain e where e: "e \<in> set ?m" "promise (snd e) = p" by blast
    have "fst e \<noteq> k"
    proof
      assume "fst e = k"
      then have "e = (k, del)" using same_key[OF e(1)] by blast
      then show False using np e(2) by simp
    qed
    then have "e \<in> set (AList.delete k ?m)" using e(1) by (simp add: set_delete)
    then show "\<exists>e \<in> set (AList.delete k ?m). promise (snd e) = p"
      using e(2) by blast
  qed
  have 6: "\<forall>tm < length ts'. t_state (ts' ! tm) = Armed \<longrightarrow>
              (\<exists>e \<in> set (AList.delete k ?m). timer (snd e) = tm)"
  proof (intro allI impI)
    fix tm assume t: "tm < length ts'" "t_state (ts' ! tm) = Armed"
    then have nt: "tm \<noteq> timer del" using ta by auto
    then have "t_state (timers d ! tm) = Armed" using t tq tl by simp
    then have "\<exists>e \<in> set ?m. timer (snd e) = tm" using tt[of tm] t(1) tl by simp
    then obtain e where e: "e \<in> set ?m" "timer (snd e) = tm" by blast
    have "fst e \<noteq> k"
    proof
      assume "fst e = k"
      then have "e = (k, del)" using same_key[OF e(1)] by blast
      then show False using nt e(2) by simp
    qed
    then have "e \<in> set (AList.delete k ?m)" using e(1) by (simp add: set_delete)
    then show "\<exists>e \<in> set (AList.delete k ?m). timer (snd e) = tm"
      using e(2) by blast
  qed
  show ?thesis unfolding wf_distributor_iff using 1 2 3 4 5 6 by simp
qed

lemma wf_found:
  assumes wf: "wf_distributor d" and f: "findDelegationByTaskId d k = Some del"
  shows "(k, del) \<in> set (activeDelegations d)" "d_task_id del = k"
    "promise del < length (promises d)" "timer del < length (timers d)"
    "promises d ! promise del = Pending" "t_state (timers d ! timer del) = Armed"
proof -
  show m: "(k, del) \<in> set (activeDelegations d)"
    using f by (simp add: findDelegationByTaskId_def map_of_SomeD)
  then have "wf_delegation d (k, del)" using wf unfolding wf_distributor_iff by blast
  then show "d_task_id del = k"
    "promise del < length (promises d)" "timer del < length (timers d)"
    "promises d ! promise del = Pending" "t_state (timers d ! timer del) = Armed"
    by (simp_all add: wf_delegation_def)
qed

lemma resolveTask_found:
  assumes wf: "wf_distributor d" and f: "findDelegationByTaskId d (task_id r) = Some del"
  shows "resolveTask d r =
     (d\<lparr>timers := (timers d)[timer del := (timers d ! timer del)\<lparr>t_state := Cleared\<rparr>],
        activeDelegations := AList.delete (task_id r) (activeDelegations d),
        promises := (promises d)[promise del := Fulfilled r]\<rparr>, True)"
  using wf_found[OF wf f] f
  by (simp add: resolveTask_def clearTimeout_def resolve_promise_def)

lemma resolveTask_wf:
  assumes wf: "wf_distributor d"
  shows "wf_distributor (fst (resolveTask d r))"
proof (cases "findDelegationByTaskId d (task_id r)")
  case None
  then show ?thesis using wf by (simp add: resolveTask_def)
next
  case (Some del)
  note fd = wf_found[OF wf Some]
  have "wf_distributor (d\<lparr>timers := (timers d)[timer del := (timers d ! timer del)\<lparr>t_state := Cleared\<rparr>],
        activeDelegations := AList.delete (task_id r) (activeDelegations d),
        promises := (promises d)[promise del := Fulfilled r]\<rparr>)"
    using fd by (intro wf_remove[OF wf fd(1)]) simp_all
  then show ?thesis by (simp add: resolveTask_found[OF wf Some])
qed

lemma fire_timer_wf:
  assumes wf: "wf_distributor d"
  shows "wf_distributor (fire_timer d tm)"
proof (cases "tm < length (timers d) \<and> t_state (timers d ! tm) = Armed")
  case False
  then show ?thesis using wf by (auto simp: fire_timer_def)
next
  case True
  then obtain e where e: "e \<in> set (activeDelegations d)" "timer (snd e) = tm"
    using wf unfolding wf_distributor_iff by blast
  obtain k del where kd: "e = (k, del)" by (cases e)
  have wd: "wf_delegation d (k, del)" using wf e kd unfolding wf_distributor_iff by blast
  have tmd: "timer del = tm" using e kd by simp
  from wd tmd have k: "t_taskId (timers d ! tm) = k" and p: "t_promise (timers d ! tm) = promise del"
    and pl: "promise del < length (promises d)" and pp: "promises d ! promise del = Pending"
    by (simp_all add: wf_delegation_def)
  let ?e = "DelegationTimedOut (t_peer (timers d ! tm)) (delegationTimeoutMs d)"
  have eq: "fire_timer d tm =
     d\<lparr>timers := (timers d)[tm := (timers d ! tm)\<lparr>t_state := Fired\<rparr>],
       activeDelegations := AList.delete k (activeDelegations d),
       promises := (promises d)[promise del := Rejected ?e]\<rparr>"
    using True k p pl pp by (simp add: fire_timer_def Let_def reject_promise_def)
  have "wf_distributor (d\<lparr>timers := (timers d)[tm := (timers d ! tm)\<lparr>t_state := Fired\<rparr>],
       activeDelegations := AList.delete k (activeDelegations d),
       promises := (promises d)[promise del := Rejected ?e]\<rparr>)"
    using True pl tmd e(1)[unfolded kd] by (intro wf_remove[OF wf, of k del]) simp_all
  then show ?thesis by (simp only: eq)
qed

lemma cancelAll_eq:
  "cancelAll d = d\<lparr>timers := fst (cancel_loop (activeDelegations d) (timers d, promises d)),
                  promises := snd (cancel_loop (activeDelegations d) (timers d, promises d)),
                  activeDelegations := []\<rparr>"
  by (simp add: cancelAll_def split_beta)

lemma cancelAll_wf:
  assumes wf: "wf_distributor d"
  shows "wf_distributor (cancelAll d)"
proof -
  from wf have tp: "\<And>p. p < length (promises d) \<Longrightarrow> promises d ! p = Pending \<Longrightarrow>
               p \<in> (\<lambda>e. promise (snd e)) ` set (activeDelegations d)"
    and tt: "\<And>tm. tm < length (timers d) \<Longrightarrow> t_state (timers d ! tm) = Armed \<Longrightarrow>
               tm \<in> (\<lambda>e. timer (snd e)) ` set (activeDelegations d)"
    unfolding wf_distributor_iff by blast+
  show ?thesis
    unfolding wf_distributor_iff cancelAll_eq
    using tp tt by (auto simp: cancel_loop_lengths cancel_loop_promise cancel_loop_timer)
qed

lemma new_WorkDistributor_wf: "wf_distributor (new_WorkDistributor s t r)"
  by (simp add: wf_distributor_iff new_WorkDistributor_def)

lemma selectPeers_wf: "wf_distributor d \<Longrightarrow> wf_distributor (fst (selectPeers d c actives))"
  by (simp add: wf_distributor_iff selectPeers_config_but_index wf_delegation_def)

lemma register_wf:
  assumes wf: "wf_distributor d" and fresh: "findDelegationByTaskId d tid = None"
  shows "wf_distributor (fst (register_delegation d peer tid u now))"
proof -
  let ?m = "activeDelegations d"
  let ?del = "\<lparr>d_task_id = tid, d_peer_node_id = node_id (identity peer), d_correlation_id = u,
            sent_at = now, timeout_ms = delegationTimeoutMs d, promise = length (promises d),
            timer = length (timers d)\<rparr>"
  from wf have dk: "distinct (map fst ?m)"
    and wd: "\<And>e. e \<in> set ?m \<Longrightarrow> wf_delegation d e"
    and dp: "distinct (map (\<lambda>e. promise (snd e)) ?m)"
    and dt: "distinct (map (\<lambda>e. timer (snd e)) ?m)"
    and tp: "\<And>p. p < length (promises d) \<Longrightarrow> promises d ! p = Pending \<Longrightarrow>
               \<exists>e \<in> set ?m. promise (snd e) = p"
    and tt: "\<And>tm. tm < length (timers d) \<Longrightarrow> t_state (timers d ! tm) = Armed \<Longrightarrow>
               \<exists>e \<in> set ?m. timer (snd e) = tm"
    unfolding wf_distributor_iff by blast+
  have absent: "map_of ?m tid = None" using fresh by (simp add: findDelegationByTaskId_def)
  then have up: "AList.update tid ?del ?m = ?m @ [(tid, ?del)]" by (rule update_absent)
  have nk: "tid \<notin> fst ` set ?m" using absent by (simp add: map_of_eq_None_iff)
  have old: "\<And>e. e \<in> set ?m \<Longrightarrow> promise (snd e) < length (promises d)
                 \<and> timer (snd e) < length (timers d)"
    using wd by (simp add: wf_delegation_def)
  have np: "length (promises d) \<notin> (\<lambda>e. promise (snd e)) ` set ?m" using old by force
  have nt: "length (timers d) \<notin> (\<lambda>e. timer (snd e)) ` set ?m" using old by force
  show ?thesis
    unfolding register_eq fst_conv up wf_distributor_iff
  proof (intro conjI)
    show "distinct (map fst (activeDelegations (d\<lparr>promises := promises d @ [Pending],
        timers := timers d @ [\<lparr>t_state = Armed, t_taskId = tid, t_promise = length (promises d),
                               t_peer = node_id (identity peer)\<rparr>],
        activeDelegations := ?m @ [(tid, ?del)]\<rparr>)))"
      using dk nk by simp
  next
    show "\<forall>e\<in>set (activeDelegations (d\<lparr>promises := promises d @ [Pending],
        timers := timers d @ [\<lparr>t_state = Armed, t_taskId = tid, t_promise = length (promises d),
                               t_peer = node_id (identity peer)\<rparr>],
        activeDelegations := ?m @ [(tid, ?del)]\<rparr>)).
       wf_delegation (d\<lparr>promises := promises d @ [Pending],
        timers := timers d @ [\<lparr>t_state = Armed, t_taskId = tid, t_promise = length (promises d),
                               t_peer = node_id (identity peer)\<rparr>],
        activeDelegations := ?m @ [(tid, ?del)]\<rparr>) e"
    proof
      fix e assume "e \<in> set (activeDelegations (d\<lparr>promises := promises d @ [Pending],
        timers := timers d @ [\<lparr>t_state = Armed, t_taskId = tid, t_promise = length (promises d),
                               t_peer = node_id (identity peer)\<rparr>],
        activeDelegations := ?m @ [(tid, ?del)]\<rparr>))"
      then have "e \<in> set ?m \<or> e = (tid, ?del)" by auto
      then show "wf_delegation (d\<lparr>promises := promises d @ [Pending],
        timers := timers d @ [\<lparr>t_state = Armed, t_taskId = tid, t_promise = length (promises d),
                               t_peer = node_id (identity peer)\<rparr>],
        activeDelegations := ?m @ [(tid, ?del)]\<rparr>) e"
      proof
        assume e: "e \<in> set ?m"
        from wd[OF e] show ?thesis by (simp add: wf_delegation_def nth_append)
      next
        assume "e = (tid, ?del)"
        then show ?thesis by (simp add: wf_delegation_def nth_append)
      qed
    qed
  next
    show "distinct (map (\<lambda>e. promise (snd e)) (activeDelegations (d\<lparr>promises := promises d @ [Pending],
        timers := timers d @ [\<lparr>t_state = Armed, t_taskId = tid, t_promise = length (promises d),
                               t_peer = node_id (identity peer)\<rparr>],
        activeDelegations := ?m @ [(tid, ?del)]\<rparr>)))"
      using dp np by simp
  next
    show "distinct (map (\<lambda>e. timer (snd e)) (activeDelegations (d\<lparr>promises := promises d @ [Pending],
        timers := timers d @ [\<lparr>t_state = Armed, t_taskId = tid, t_promise = length (promises d),
                               t_peer = node_id (identity peer)\<rparr>],
        activeDelegations := ?m @ [(tid, ?del)]\<rparr>)))"
      using dt nt by simp
  next
    show "\<forall>p<length (promises (d\<lparr>promises := promises d @ [Pending],
        timers := timers d @ [\<lparr>t_state = Armed, t_taskId = tid, t_promise = length (promises d),
                               t_peer = node_id (identity peer)\<rparr>],
        activeDelegations := ?m @ [(tid, ?del)]\<rparr>)).
       promises (d\<lparr>promises := promises d @ [Pending],
        timers := timers d @ [\<lparr>t_state = Armed, t_taskId = tid, t_promise = length (promises d),
                               t_peer = node_id (identity peer)\<rparr>],
        activeDelegations := ?m @ [(tid, ?del)]\<rparr>) ! p = Pending \<longrightarrow>
       (\<exists>e\<in>set (activeDelegations (d\<lparr>promises := promises d @ [Pending],
        timers := timers d @ [\<lparr>t_state = Armed, t_taskId = tid, t_promise = length (promises d),
                               t_peer = node_id (identity peer)\<rparr>],
        activeDelegations := ?m @ [(tid, ?del)]\<rparr>)). promise (snd e) = p)"
      using tp by (auto simp: nth_append less_Suc_eq)
  next
    show "\<forall>tm<length (timers (d\<lparr>promises := promises d @ [Pending],
        timers := timers d @ [\<lparr>t_state = Armed, t_taskId = tid, t_promise = length (promises d),
                               t_peer = node_id (identity peer)\<rparr>],
        activeDelegations := ?m @ [(tid, ?del)]\<rparr>)).
       t_state (timers (d\<lparr>promises := promises d @ [Pending],
        timers := timers d @ [\<lparr>t_state = Armed, t_taskId = tid, t_promise = length (promises d),
                               t_peer = node_id (identity peer)\<rparr>],
        activeDelegations := ?m @ [(tid, ?del)]\<rparr>) ! tm) = Armed \<longrightarrow>
       (\<exists>e\<in>set (activeDelegations (d\<lparr>promises := promises d @ [Pending],
        timers := timers d @ [\<lparr>t_state = Armed, t_taskId = tid, t_promise = length (promises d),
                               t_peer = node_id (identity peer)\<rparr>],
        activeDelegations := ?m @ [(tid, ?del)]\<rparr>)). timer (snd e) = tm)"
      using tt by (auto simp: nth_append less_Suc_eq)
  qed
qed

lemma length_delete_present:
  "distinct (map fst m) \<Longrightarrow> map_of m k = Some v \<Longrightarrow> Suc (length (AList.delete k m)) = length m"
proof (induction m)
  case Nil
  then show ?case by simp
next
  case (Cons e m)
  obtain k' v' where e: "e = (k', v')" by (cases e)
  show ?case
  proof (cases "k' = k")
    case True
    then have "k \<notin> fst ` set m" using Cons.prems(1) e by auto
    then show ?thesis using True e by (simp add: delete_id)
  next
    case False
    then show ?thesis using Cons e by simp
  qed
qed

lemma wf_in_range: "wf_distributor d \<Longrightarrow> timers_in_range d"
  unfolding wf_distributor_iff timers_in_range_def list_all_iff wf_delegation_def by blast

lemma resolveTask_absent:
  "findDelegationByTaskId d (task_id r) = None \<Longrightarrow> resolveTask d r = (d, False)"
  by (simp add: resolveTask_def)

lemma resolveTask_keeps_settled:
  assumes "q < length (promises d)" "promises d ! q \<noteq> Pending"
  shows "promises (fst (resolveTask d r)) ! q = promises d ! q"
  using assms
  by (cases "findDelegationByTaskId d (task_id r)")
     (auto simp: resolveTask_def nth_resolve_promise)

text \<open>
  C8. Under \<open>capability_match\<close> with a non-empty \<open>tool_allowlist\<close>, \<^verbatim>\<open>selectPeers\<close>
  returns, in the order \<^verbatim>\<open>getActivePeers()\<close> gives them, exactly the peers whose
  capabilities share at least one tool name with the allowlist, and changes no state. With
  the active peers of a peer table, a peer is returned if and only if it is in the table,
  is active and has such an overlap.
\<close>

theorem selectPeers_capability_match:
  assumes "strategy d = capability_match"
    and "tool_allowlist c = Some req" and "req \<noteq> []"
  shows "selectPeers d (Some c) actives =
           (d, filter (\<lambda>peer. set (capabilities (identity peer)) \<inter> set req \<noteq> {}) actives)
    \<and> (\<forall>peer. peer \<in> set (snd (selectPeers d (Some c) (getActive t))) \<longleftrightarrow>
          peer \<in> snd ` set (peers t) \<and> status peer = Active
          \<and> set (capabilities (identity peer)) \<inter> set req \<noteq> {})"
proof -
  have sel: "\<And>actives. selectPeers d (Some c) actives =
           (d, filter (\<lambda>peer. set (capabilities (identity peer)) \<inter> set req \<noteq> {}) actives)"
    using assms by (simp add: selectPeers_def has_allowlist_Some overlap_iff)
  show ?thesis by (auto simp: sel getActive_def)
qed

text \<open>
  C5. \<^verbatim>\<open>distribute\<close> fails with \<open>NoSuitablePeers\<close>, without any attempt, when
  \<^verbatim>\<open>selectPeers\<close> gives no candidate. Otherwise its attempts go to the candidates in their
  order, one each; there are at most \<open>maxRetries + 1\<close> of them (none when that number is
  not positive); every attempt but the last one ended with a thrown error, and the outcome
  of the call is the outcome of its last attempt: so when the call fails after an attempt,
  the error is that of the last attempt, and every candidate within the limit has been
  tried. Each attempt is a call of \<^verbatim>\<open>delegateToPeer\<close>, which throws \<open>PeerRejected\<close> when
  the peer does not accept, the timeout error when nothing settles the promise before the
  expiry timer, and \<open>DelegationCancelled\<close> on \<^verbatim>\<open>cancelAll\<close>. With no attempt at all
  (\<open>maxRetries < 0\<close>) the error is \<open>FailedToDistribute\<close>. The call always ends, provided
  the timers held by the stored delegations exist.
\<close>

theorem distribute_attempts:
  "(snd (selectPeers d c actives) = [] \<longrightarrow>
      snd (snd (distribute d tt sid c actives env)) = Some (Inl NoSuitablePeers)
      \<and> fst (snd (distribute d tt sid c actives env)) = [])
   \<and> map fst (fst (snd (distribute d tt sid c actives env))) =
       take (length (fst (snd (distribute d tt sid c actives env))))
         (map (\<lambda>p. node_id (identity p)) (snd (selectPeers d c actives)))
   \<and> int (length (fst (snd (distribute d tt sid c actives env)))) \<le> max 0 (maxRetries d + 1)
   \<and> (- 1 \<le> maxRetries d \<longrightarrow>
        int (length (fst (snd (distribute d tt sid c actives env)))) \<le> maxRetries d + 1)
   \<and> list_all failed_attempt (butlast (fst (snd (distribute d tt sid c actives env))))
   \<and> (fst (snd (distribute d tt sid c actives env)) \<noteq> [] \<longrightarrow>
        snd (last (fst (snd (distribute d tt sid c actives env))))
          = snd (snd (distribute d tt sid c actives env)))
   \<and> (snd (selectPeers d c actives) \<noteq> []
        \<and> (\<exists>e. snd (snd (distribute d tt sid c actives env)) = Some (Inl e)) \<longrightarrow>
        length (fst (snd (distribute d tt sid c actives env)))
          = min (length (snd (selectPeers d c actives))) (nat (maxRetries d + 1)))
   \<and> (snd (selectPeers d c actives) \<noteq> [] \<and> fst (snd (distribute d tt sid c actives env)) = [] \<longrightarrow>
        snd (snd (distribute d tt sid c actives env)) = Some (Inl FailedToDistribute)
        \<and> maxRetries d < 0)
   \<and> (\<forall>i < length (fst (snd (distribute d tt sid c actives env))). \<exists>di.
        snd (fst (snd (distribute d tt sid c actives env)) ! i)
          = snd (delegateToPeer di (snd (selectPeers d c actives) ! i) tt sid c (env i)))
   \<and> (timers_in_range d \<longrightarrow> snd (snd (distribute d tt sid c actives env)) \<noteq> None)
   \<and> (\<forall>d0 peer e r. delegateTask e (node_id (identity peer)) tt sid c = Inr r \<and> \<not> accepted r \<longrightarrow>
        delegateToPeer d0 peer tt sid c e
          = (d0, Some (Inl (PeerRejected (node_id (identity peer)) (reason r)))))
   \<and> (\<forall>d0 peer e r. delegateTask e (node_id (identity peer)) tt sid c = Inr r \<and> accepted r
          \<and> events e = [] \<longrightarrow>
        snd (delegateToPeer d0 peer tt sid c e)
          = Some (Inl (DelegationTimedOut (node_id (identity peer)) (delegationTimeoutMs d0))))
   \<and> (\<forall>d0 peer e r es. delegateTask e (node_id (identity peer)) tt sid c = Inr r \<and> accepted r
          \<and> events e = CancelAllCalled # es \<longrightarrow>
        snd (delegateToPeer d0 peer tt sid c e) = Some (Inl DelegationCancelled))"
proof (cases "snd (selectPeers d c actives) = []")
  case True
  show ?thesis
    by (simp add: distribute_empty[OF True] True delegateToPeer_rejected delegateToPeer_timeout
          delegateToPeer_cancelled)
next
  case False
  let ?d1 = "fst (selectPeers d c actives)"
  let ?cands = "snd (selectPeers d c actives)"
  let ?L = "distribute_loop ?d1 ?cands tt sid c env 0 None []"
  have mr: "maxRetries ?d1 = maxRetries d" by (simp add: selectPeers_config_but_index)
  from distribute_loop_trace[of ?d1 ?cands tt sid c env 0 None "[]"]
  obtain ext where
    e1: "fst (snd ?L) = ext"
    and e2: "map fst ext = take (length ext) (map (\<lambda>p. node_id (identity p)) ?cands)"
    and e3: "int (length ext) \<le> max 0 (maxRetries d + 1)"
    and e4: "list_all failed_attempt (butlast ext)"
    and e5: "ext \<noteq> [] \<longrightarrow> snd (last ext) = snd (snd ?L)"
    and e6: "ext = [] \<longrightarrow> snd (snd ?L) = Some (Inl FailedToDistribute)
               \<and> (?cands = [] \<or> 0 \<ge> maxRetries d + 1)"
    and e7: "(\<exists>e. snd (snd ?L) = Some (Inl e)) \<longrightarrow>
               length ext = min (length ?cands) (nat (maxRetries d + 1))"
    and e8: "\<forall>i < length ext. \<exists>di.
               snd (ext ! i) = snd (delegateToPeer di (?cands ! i) tt sid c (env i))"
    unfolding mr by (auto simp: or_else_def)
  have tot: "timers_in_range d \<longrightarrow> snd (snd ?L) \<noteq> None"
    using distribute_loop_returns[OF selectPeers_in_range] by blast
  have dist: "distribute d tt sid c actives env = ?L" by (rule distribute_nonempty[OF False])
  have c1: "map fst (fst (snd ?L)) = take (length (fst (snd ?L))) (map (\<lambda>p. node_id (identity p)) ?cands)"
    using e1 e2 by simp
  have c2: "int (length (fst (snd ?L))) \<le> max 0 (maxRetries d + 1)" using e1 e3 by simp
  have c2': "- 1 \<le> maxRetries d \<longrightarrow> int (length (fst (snd ?L))) \<le> maxRetries d + 1"
    using c2 by arith
  have c3: "list_all failed_attempt (butlast (fst (snd ?L)))" using e1 e4 by simp
  have c4: "fst (snd ?L) \<noteq> [] \<longrightarrow> snd (last (fst (snd ?L))) = snd (snd ?L)" using e1 e5 by simp
  have c5: "(\<exists>e. snd (snd ?L) = Some (Inl e)) \<longrightarrow>
              length (fst (snd ?L)) = min (length ?cands) (nat (maxRetries d + 1))"
    using e1 e7 by simp
  have c6: "fst (snd ?L) = [] \<longrightarrow> snd (snd ?L) = Some (Inl FailedToDistribute) \<and> maxRetries d < 0"
    using e1 e6 False by auto
  have c7: "\<forall>i < length (fst (snd ?L)). \<exists>di.
               snd (fst (snd ?L) ! i) = snd (delegateToPeer di (?cands ! i) tt sid c (env i))"
    using e1 e8 by simp
  show ?thesis
    unfolding dist using False c1 c2 c2' c3 c4 c5 c6 c7 tot
    by (simp add: delegateToPeer_rejected delegateToPeer_timeout delegateToPeer_cancelled
          del: distribute_loop.simps)
qed

text \<open>
  C2, as the code has it. Under \<open>round_robin\<close>, \<^verbatim>\<open>selectPeers\<close> returns all active peers
  rotated to start at the round-robin index (taken modulo their number) and then sets the
  index to the old index plus one, modulo their number. The index is kept in the state, so
  with \<open>N\<close> active peers of distinct ids and \<open>maxRetries \<ge> 0\<close>, the first attempts of
  \<open>N\<close> successive \<^verbatim>\<open>distribute\<close> calls go to \<open>N\<close> distinct peers: all of them. Under
  \<open>capability_match\<close> with no allowlist \<^verbatim>\<open>selectPeers\<close> returns the active peers as given,
  not rotated, and leaves the index as it is.
\<close>

theorem selectPeers_round_robin:
  "(strategy d = round_robin \<and> actives \<noteq> [] \<longrightarrow>
      selectPeers d c actives =
        (d\<lparr>roundRobinIndex := (roundRobinIndex d + 1) mod length actives\<rparr>,
         rotate (roundRobinIndex d) actives)
      \<and> length (snd (selectPeers d c actives)) = length actives
      \<and> (\<forall>i < length actives. snd (selectPeers d c actives) ! i
            = actives ! ((roundRobinIndex d + i) mod length actives)))
   \<and> (strategy d = round_robin \<and> actives \<noteq> [] \<and> 0 \<le> maxRetries d
        \<and> distinct (map (\<lambda>p. node_id (identity p)) actives)
        \<and> length envs = length actives \<longrightarrow>
      list_all (\<lambda>tr. tr \<noteq> []) (distribute_calls d tt sid c actives envs)
      \<and> length (distribute_calls d tt sid c actives envs) = length actives
      \<and> distinct (map (\<lambda>tr. fst (hd tr)) (distribute_calls d tt sid c actives envs))
      \<and> set (map (\<lambda>tr. fst (hd tr)) (distribute_calls d tt sid c actives envs))
          = set (map (\<lambda>p. node_id (identity p)) actives))
   \<and> (strategy d = capability_match \<and> \<not> has_allowlist c \<longrightarrow>
        selectPeers d c actives = (d, actives))"
proof (intro conjI impI)
  assume a: "strategy d = round_robin \<and> actives \<noteq> []"
  then show "selectPeers d c actives =
        (d\<lparr>roundRobinIndex := (roundRobinIndex d + 1) mod length actives\<rparr>,
         rotate (roundRobinIndex d) actives)"
    by (simp add: selectPeers_rr)
  then show "length (snd (selectPeers d c actives)) = length actives" by simp
  show "\<forall>i < length actives. snd (selectPeers d c actives) ! i
            = actives ! ((roundRobinIndex d + i) mod length actives)"
    using a by (simp add: selectPeers_rr nth_rotate)
next
  assume a: "strategy d = round_robin \<and> actives \<noteq> [] \<and> 0 \<le> maxRetries d
        \<and> distinct (map (\<lambda>p. node_id (identity p)) actives)
        \<and> length envs = length actives"
  then have s: "strategy d = round_robin" and ne: "actives \<noteq> []" and mr: "0 \<le> maxRetries d"
    and di: "distinct (map (\<lambda>p. node_id (identity p)) actives)"
    and le: "length envs = length actives" by simp_all
  note f = distribute_calls_firsts[OF s ne mr, of tt sid c envs]
  have m: "map (\<lambda>tr. fst (hd tr)) (distribute_calls d tt sid c actives envs)
         = map (\<lambda>p. node_id (identity p)) (rotate (roundRobinIndex d) actives)"
    using f le firsts_as_rotation[OF ne, of "roundRobinIndex d"] by simp
  show "list_all (\<lambda>tr. tr \<noteq> []) (distribute_calls d tt sid c actives envs)" using f by simp
  show "length (distribute_calls d tt sid c actives envs) = length actives"
    using arg_cong[OF m, of length] by simp
  show "distinct (map (\<lambda>tr. fst (hd tr)) (distribute_calls d tt sid c actives envs))"
    unfolding m using di by (simp add: rotate_map[symmetric])
  show "set (map (\<lambda>tr. fst (hd tr)) (distribute_calls d tt sid c actives envs))
          = set (map (\<lambda>p. node_id (identity p)) actives)"
    unfolding m by (simp add: rotate_map[symmetric])
next
  assume "strategy d = capability_match \<and> \<not> has_allowlist c"
  then show "selectPeers d c actives = (d, actives)" by (simp add: selectPeers_cm_plain)
qed

text \<open>
  C4. In a state that satisfies the invariant of the distributor, \<^verbatim>\<open>resolveTask(result)\<close>
  with a task id present in the Map clears that delegation's expiry timer, deletes the
  entry, fulfils its promise with the result and returns \<open>True\<close>; the other entries,
  promises and timers are untouched. With an absent task id it returns \<open>False\<close> and the
  state is the same. After a resolution a second call with the same task id returns
  \<open>False\<close> and changes nothing, and no later call changes the fulfilled promise. The
  invariant is kept.
\<close>

theorem resolveTask_once:
  assumes wf: "wf_distributor d"
  shows
   "(\<forall>del. findDelegationByTaskId d (task_id result) = Some del \<longrightarrow>
       snd (resolveTask d result) = True
       \<and> t_state (timers (fst (resolveTask d result)) ! timer del) = Cleared
       \<and> findDelegationByTaskId (fst (resolveTask d result)) (task_id result) = None
       \<and> activeCount (fst (resolveTask d result)) = activeCount d - 1
       \<and> promises (fst (resolveTask d result)) ! promise del = Fulfilled result
       \<and> (\<forall>k. k \<noteq> task_id result \<longrightarrow>
             findDelegationByTaskId (fst (resolveTask d result)) k = findDelegationByTaskId d k)
       \<and> (\<forall>q < length (promises d). q \<noteq> promise del \<longrightarrow>
             promises (fst (resolveTask d result)) ! q = promises d ! q)
       \<and> (\<forall>q < length (timers d). q \<noteq> timer del \<longrightarrow>
             timers (fst (resolveTask d result)) ! q = timers d ! q)
       \<and> (\<forall>again. task_id again = task_id result \<longrightarrow>
             resolveTask (fst (resolveTask d result)) again = (fst (resolveTask d result), False))
       \<and> (\<forall>later. promises (fst (resolveTask (fst (resolveTask d result)) later)) ! promise del
             = Fulfilled result))
    \<and> (findDelegationByTaskId d (task_id result) = None \<longrightarrow> resolveTask d result = (d, False))
    \<and> wf_distributor (fst (resolveTask d result))"
proof (intro conjI allI impI)
  show "wf_distributor (fst (resolveTask d result))" using wf by (rule resolveTask_wf)
next
  assume "findDelegationByTaskId d (task_id result) = None"
  then show "resolveTask d result = (d, False)" by (rule resolveTask_absent)
next
  fix del assume f: "findDelegationByTaskId d (task_id result) = Some del"
  note fd = wf_found[OF wf f]
  note eq = resolveTask_found[OF wf f]
  have dk: "distinct (map fst (activeDelegations d))" using wf unfolding wf_distributor_iff by blast
  have mo: "map_of (activeDelegations d) (task_id result) = Some del"
    using f by (simp add: findDelegationByTaskId_def)
  show "snd (resolveTask d result) = True" by (simp add: eq)
  show "t_state (timers (fst (resolveTask d result)) ! timer del) = Cleared"
    using fd by (simp add: eq)
  show gone: "findDelegationByTaskId (fst (resolveTask d result)) (task_id result) = None"
    by (simp add: eq findDelegationByTaskId_def delete_conv')
  show "activeCount (fst (resolveTask d result)) = activeCount d - 1"
    using length_delete_present[OF dk mo] by (simp add: eq activeCount_def)
  show ful: "promises (fst (resolveTask d result)) ! promise del = Fulfilled result"
    using fd by (simp add: eq)
  show "\<And>q. q < length (promises d) \<Longrightarrow> q \<noteq> promise del \<Longrightarrow>
          promises (fst (resolveTask d result)) ! q = promises d ! q"
    by (simp add: eq)
  show "\<And>q. q < length (timers d) \<Longrightarrow> q \<noteq> timer del \<Longrightarrow>
          timers (fst (resolveTask d result)) ! q = timers d ! q"
    by (simp add: eq)
  show "\<And>k. k \<noteq> task_id result \<Longrightarrow>
          findDelegationByTaskId (fst (resolveTask d result)) k = findDelegationByTaskId d k"
    by (simp add: eq findDelegationByTaskId_def)
  show "\<And>again. task_id again = task_id result \<Longrightarrow>
          resolveTask (fst (resolveTask d result)) again = (fst (resolveTask d result), False)"
    using gone by (simp add: resolveTask_absent)
  show "\<And>later. promises (fst (resolveTask (fst (resolveTask d result)) later)) ! promise del
             = Fulfilled result"
  proof -
    fix later
    have l: "promise del < length (promises (fst (resolveTask d result)))"
      using fd by (simp add: eq)
    have n: "promises (fst (resolveTask d result)) ! promise del \<noteq> Pending" using ful by simp
    show "promises (fst (resolveTask (fst (resolveTask d result)) later)) ! promise del
             = Fulfilled result"
      using resolveTask_keeps_settled[OF l n, of later] ful by simp
  qed
qed

text \<open>
  C7. In a state that satisfies the invariant of the distributor, \<^verbatim>\<open>cancelAll\<close> rejects
  the promise of every stored delegation with \<open>DelegationCancelled\<close>, clears its timer and
  empties the Map: afterwards \<open>activeCount\<close> is 0, no promise is pending, no timer is
  armed, and the promises settled before are as they were.
\<close>

theorem cancelAll_clears:
  assumes wf: "wf_distributor d"
  shows "activeCount (cancelAll d) = 0 \<and> activeDelegations (cancelAll d) = []
    \<and> (\<forall>e \<in> set (activeDelegations d).
          promises (cancelAll d) ! promise (snd e) = Rejected DelegationCancelled
          \<and> t_state (timers (cancelAll d) ! timer (snd e)) = Cleared)
    \<and> length (promises (cancelAll d)) = length (promises d)
    \<and> length (timers (cancelAll d)) = length (timers d)
    \<and> (\<forall>q < length (promises d). promises (cancelAll d) ! q \<noteq> Pending)
    \<and> (\<forall>q < length (timers d). t_state (timers (cancelAll d) ! q) \<noteq> Armed)
    \<and> (\<forall>q < length (promises d). promises d ! q \<noteq> Pending \<longrightarrow>
          promises (cancelAll d) ! q = promises d ! q)
    \<and> wf_distributor (cancelAll d)"
proof -
  from wf have wd: "\<And>e. e \<in> set (activeDelegations d) \<Longrightarrow> wf_delegation d e"
    and tp: "\<And>p. p < length (promises d) \<Longrightarrow> promises d ! p = Pending \<Longrightarrow>
               p \<in> (\<lambda>e. promise (snd e)) ` set (activeDelegations d)"
    and tt: "\<And>tm. tm < length (timers d) \<Longrightarrow> t_state (timers d ! tm) = Armed \<Longrightarrow>
               tm \<in> (\<lambda>e. timer (snd e)) ` set (activeDelegations d)"
    unfolding wf_distributor_iff by blast+
  have a: "activeCount (cancelAll d) = 0 \<and> activeDelegations (cancelAll d) = []"
    by (simp add: cancelAll_eq activeCount_def)
  have b: "\<forall>e \<in> set (activeDelegations d).
          promises (cancelAll d) ! promise (snd e) = Rejected DelegationCancelled
          \<and> t_state (timers (cancelAll d) ! timer (snd e)) = Cleared"
  proof
    fix e assume e: "e \<in> set (activeDelegations d)"
    from wd[OF e] have "promise (snd e) < length (promises d)" "timer (snd e) < length (timers d)"
      "promises d ! promise (snd e) = Pending" "t_state (timers d ! timer (snd e)) = Armed"
      by (simp_all add: wf_delegation_def)
    then show "promises (cancelAll d) ! promise (snd e) = Rejected DelegationCancelled
          \<and> t_state (timers (cancelAll d) ! timer (snd e)) = Cleared"
      using e by (simp add: cancelAll_eq cancel_loop_promise cancel_loop_timer)
  qed
  have c: "length (promises (cancelAll d)) = length (promises d)
    \<and> length (timers (cancelAll d)) = length (timers d)"
    by (simp add: cancelAll_eq cancel_loop_lengths)
  have d1: "\<forall>q < length (promises d). promises (cancelAll d) ! q \<noteq> Pending"
    using tp by (auto simp: cancelAll_eq cancel_loop_promise)
  have d2: "\<forall>q < length (timers d). t_state (timers (cancelAll d) ! q) \<noteq> Armed"
    using tt by (auto simp: cancelAll_eq cancel_loop_timer)
  have f: "\<forall>q < length (promises d). promises d ! q \<noteq> Pending \<longrightarrow>
          promises (cancelAll d) ! q = promises d ! q"
    by (simp add: cancelAll_eq cancel_loop_promise)
  show ?thesis using a b c d1 d2 f cancelAll_wf[OF wf] by blast
qed

section \<open>Mesh manager: properties\<close>

lemma expire_keeps:
  "map_of ledger n = Some seen \<Longrightarrow> now - seen \<le> window \<Longrightarrow>
   map_of (expire_nonces now window ledger) n = Some seen"
  unfolding expire_nonces_def by (rule map_of_filter_in) auto

lemma handleTaskRequest_window:
  "nonce_window_ms (fst (handleTaskRequest m req now)) = nonce_window_ms m"
  by (cases "onTaskRequest m") (simp_all add: handleTaskRequest_def Let_def)

lemma handleTaskRequest_replay:
  assumes "map_of (seenNonces m) (nonce req) = Some seen" "now - seen \<le> nonce_window_ms m"
  shows "handleTaskRequest m req now =
     (m\<lparr>seenNonces := expire_nonces now (nonce_window_ms m) (seenNonces m)\<rparr>,
      \<lparr>r_accepted = False, r_reason = Some ''Replayed nonce'', r_session_id = None\<rparr>)"
  using expire_keeps[OF assms] by (simp add: handleTaskRequest_def Let_def)

lemma handleTaskRequest_records:
  assumes "onTaskRequest m = Some f"
    and "map_of (expire_nonces now (nonce_window_ms m) (seenNonces m)) (nonce req) = None"
  shows "map_of (seenNonces (fst (handleTaskRequest m req now))) (nonce req) = Some now"
    and "factory_calls (fst (handleTaskRequest m req now)) = factory_calls m @ [req]"
    and "snd (handleTaskRequest m req now) = f req"
  using assms by (simp_all add: handleTaskRequest_def Let_def map_of_update_same)

lemma handleTaskRequest_keeps_entry:
  assumes "map_of (seenNonces m) n = Some seen" "now - seen \<le> nonce_window_ms m"
  shows "map_of (seenNonces (fst (handleTaskRequest m req now))) n = Some seen"
proof -
  have k: "map_of (expire_nonces now (nonce_window_ms m) (seenNonces m)) n = Some seen"
    using assms by (rule expire_keeps)
  show ?thesis
  proof (cases "map_of (expire_nonces now (nonce_window_ms m) (seenNonces m)) (nonce req) \<noteq> None")
    case True
    then show ?thesis using k by (simp add: handleTaskRequest_def Let_def)
  next
    case False
    then have ne: "n \<noteq> nonce req" using k by auto
    show ?thesis using False k ne
      by (cases "onTaskRequest m") (simp_all add: handleTaskRequest_def Let_def map_of_update_other)
  qed
qed

lemma handle_all_keeps_entry:
  "map_of (seenNonces m) n = Some seen \<Longrightarrow>
   list_all (\<lambda>(req, now). now - seen \<le> nonce_window_ms m) between \<Longrightarrow>
   map_of (seenNonces (handle_all m between)) n = Some seen
   \<and> nonce_window_ms (handle_all m between) = nonce_window_ms m"
proof (induction between arbitrary: m)
  case Nil
  then show ?case by simp
next
  case (Cons a between)
  obtain req now where a: "a = (req, now)" by (cases a)
  have w: "now - seen \<le> nonce_window_ms m" using Cons.prems(2) a by simp
  have 1: "map_of (seenNonces (fst (handleTaskRequest m req now))) n = Some seen"
    using handleTaskRequest_keeps_entry[OF Cons.prems(1) w] .
  have 2: "list_all (\<lambda>(req', now'). now' - seen \<le> nonce_window_ms (fst (handleTaskRequest m req now)))
             between"
    using Cons.prems(2) by (simp add: handleTaskRequest_window)
  show ?case using Cons.IH[OF 1 2] a by (simp add: handleTaskRequest_window)
qed

text \<open>
  C3. Let \<open>r1\<close> be handled at \<open>t1\<close> by a manager with a session factory, its nonce not in
  the ledger, so that the nonce is recorded at \<open>t1\<close>. After any requests handled in
  between, none later than \<open>t2\<close>, a request \<open>r2\<close> with the same nonce handled at \<open>t2\<close>,
  less than \<open>nonce_window_ms\<close> after \<open>t1\<close>, is answered \<open>accepted = False\<close> with the reason
  "Replayed nonce", and the session factory is not invoked for it.
\<close>

theorem replayed_nonce_rejected:
  assumes factory: "onTaskRequest m = Some f"
    and recorded: "map_of (expire_nonces t1 (nonce_window_ms m) (seenNonces m)) (nonce r1) = None"
    and between: "list_all (\<lambda>(req, now). now \<le> t2) between"
    and same: "nonce r2 = nonce r1"
    and window: "t2 - t1 < nonce_window_ms m"
  shows "snd (handleTaskRequest (handle_all (fst (handleTaskRequest m r1 t1)) between) r2 t2)
           = \<lparr>r_accepted = False, r_reason = Some ''Replayed nonce'', r_session_id = None\<rparr>
    \<and> factory_calls (fst (handleTaskRequest (handle_all (fst (handleTaskRequest m r1 t1)) between) r2 t2))
           = factory_calls (handle_all (fst (handleTaskRequest m r1 t1)) between)
    \<and> map_of (seenNonces (fst (handleTaskRequest m r1 t1))) (nonce r1) = Some t1"
proof -
  let ?m1 = "fst (handleTaskRequest m r1 t1)"
  let ?m2 = "handle_all ?m1 between"
  have rec: "map_of (seenNonces ?m1) (nonce r1) = Some t1"
    using handleTaskRequest_records(1)[OF factory recorded] .
  have w1: "nonce_window_ms ?m1 = nonce_window_ms m" by (rule handleTaskRequest_window)
  have b: "list_all (\<lambda>(req, now). now - t1 \<le> nonce_window_ms ?m1) between"
    using between window unfolding w1 list_all_iff by auto
  from handle_all_keeps_entry[OF rec b]
  have e2: "map_of (seenNonces ?m2) (nonce r2) = Some t1"
    and w2: "nonce_window_ms ?m2 = nonce_window_ms m"
    using same w1 by simp_all
  have le: "t2 - t1 \<le> nonce_window_ms ?m2" using window w2 by simp
  show ?thesis using handleTaskRequest_replay[OF e2 le] rec by simp
qed

section \<open>Work distributor: instances\<close>

lemma ex_S5: "snd (distribute ex_dist ''task text'' ''sess-1'' None ex_actives env_S5) =
   ([(''A'', Some (Inl (PeerRejected ''A'' (Some ''Busy'')))), (''B'', Some (Inr ex_result))],
    Some (Inr ex_result))"
  by code_simp

lemma ex_S5_active:
  "activeDelegations (fst (distribute ex_dist ''task text'' ''sess-1'' None ex_actives env_S5)) = []"
  by code_simp

lemma ex_S6: "snd (distribute ex_dist0 ''task text'' ''sess-1'' None [ex_peer ''A'' Active 0] env_S6) =
   ([(''A'', Some (Inl (DelegationTimedOut ''A'' 50)))], Some (Inl (DelegationTimedOut ''A'' 50)))"
  by code_simp

lemma ex_S6_active:
  "activeDelegations (fst (distribute ex_dist0 ''task text'' ''sess-1'' None [ex_peer ''A'' Active 0] env_S6)) = []"
  by code_simp

lemma ex_none: "snd (distribute ex_dist ''task text'' ''sess-1'' None [] env_S5) =
   ([], Some (Inl NoSuitablePeers))"
  by code_simp

lemma ex_sel: "snd (selectPeers ex_dist None ex_actives) = ex_actives"
  "snd (selectPeers ex_dist0 None [ex_peer ''A'' Active 0]) = [ex_peer ''A'' Active 0]"
  "snd (selectPeers ex_dist None []) = []"
  by code_simp+

lemma ex_range: "timers_in_range ex_dist" "timers_in_range ex_dist0"
  by code_simp+

lemma ex_misc: "ex_actives \<noteq> []" "maxRetries ex_dist = 2" "maxRetries ex_dist0 = 0"
  by (simp_all add: ex_actives_def ex_dist_def ex_dist0_def new_WorkDistributor_def)

lemma ex_attempts:
  "delegateTask (env_reject ''Busy'') ''A''
     ''task text'' ''sess-1'' None = Inr \<lparr>accepted = False, reason = Some ''Busy'', taskId = []\<rparr>"
  "delegateTask (env_accept []) ''A''
     ''task text'' ''sess-1'' None = Inr \<lparr>accepted = True, reason = None, taskId = ''task-1''\<rparr>"
  "delegateTask (env_accept [CancelAllCalled]) ''A''
     ''task text'' ''sess-1'' None = Inr \<lparr>accepted = True, reason = None, taskId = ''task-1''\<rparr>"
  "events (env_accept []) = []" "events (env_accept [CancelAllCalled]) = [CancelAllCalled]"
  "node_id (identity (ex_peer ''A'' Active 0)) = ''A''" "delegationTimeoutMs ex_dist = 300000"
  by code_simp+

theorem distribute_attempts_witness:
  "snd (selectPeers ex_dist None []) = []
   \<and> snd (snd (distribute ex_dist ''task text'' ''sess-1'' None [] env_S5))
       = Some (Inl NoSuitablePeers)
   \<and> snd (selectPeers ex_dist None ex_actives) \<noteq> [] \<and> timers_in_range ex_dist
   \<and> snd (snd (distribute ex_dist ''task text'' ''sess-1'' None ex_actives env_S5))
       = Some (Inr ex_result)
   \<and> int (length (fst (snd (distribute ex_dist ''task text'' ''sess-1'' None ex_actives env_S5))))
       \<le> max 0 (maxRetries ex_dist + 1)
   \<and> snd (snd (distribute ex_dist0 ''task text'' ''sess-1'' None [ex_peer ''A'' Active 0] env_S6))
       = Some (Inl (DelegationTimedOut ''A'' 50))
   \<and> length (fst (snd (distribute ex_dist0 ''task text'' ''sess-1'' None [ex_peer ''A'' Active 0]
         env_S6))) = min 1 (nat (maxRetries ex_dist0 + 1))
   \<and> delegateToPeer ex_dist (ex_peer ''A'' Active 0) ''task text'' ''sess-1'' None
         (env_reject ''Busy'') = (ex_dist, Some (Inl (PeerRejected ''A'' (Some ''Busy''))))
   \<and> snd (delegateToPeer ex_dist (ex_peer ''A'' Active 0) ''task text'' ''sess-1'' None
         (env_accept [])) = Some (Inl (DelegationTimedOut ''A'' 300000))
   \<and> snd (delegateToPeer ex_dist (ex_peer ''A'' Active 0) ''task text'' ''sess-1'' None
         (env_accept [CancelAllCalled])) = Some (Inl DelegationCancelled)"
proof -
  note none = distribute_attempts[where d=ex_dist and c=None and actives="[]"
      and tt="''task text''" and sid="''sess-1''" and env=env_S5]
  note s5 = distribute_attempts[where d=ex_dist and c=None and actives=ex_actives
      and tt="''task text''" and sid="''sess-1''" and env=env_S5]
  note s6 = distribute_attempts[where d=ex_dist0 and c=None and actives="[ex_peer ''A'' Active 0]"
      and tt="''task text''" and sid="''sess-1''" and env=env_S6]
  have a: "snd (selectPeers ex_dist None []) = []
   \<and> snd (snd (distribute ex_dist ''task text'' ''sess-1'' None [] env_S5))
       = Some (Inl NoSuitablePeers)"
    using none by (simp add: ex_sel)
  have b: "snd (selectPeers ex_dist None ex_actives) \<noteq> [] \<and> timers_in_range ex_dist
   \<and> snd (snd (distribute ex_dist ''task text'' ''sess-1'' None ex_actives env_S5))
       = Some (Inr ex_result)
   \<and> int (length (fst (snd (distribute ex_dist ''task text'' ''sess-1'' None ex_actives env_S5))))
       \<le> max 0 (maxRetries ex_dist + 1)"
    using s5 by (simp add: ex_S5 ex_sel ex_range ex_misc)
  have c: "snd (snd (distribute ex_dist0 ''task text'' ''sess-1'' None [ex_peer ''A'' Active 0] env_S6))
       = Some (Inl (DelegationTimedOut ''A'' 50))
   \<and> length (fst (snd (distribute ex_dist0 ''task text'' ''sess-1'' None [ex_peer ''A'' Active 0]
         env_S6))) = min 1 (nat (maxRetries ex_dist0 + 1))"
    using s6 by (simp add: ex_S6 ex_sel ex_range ex_misc)
  have r: "delegateToPeer ex_dist (ex_peer ''A'' Active 0) ''task text'' ''sess-1'' None
         (env_reject ''Busy'') = (ex_dist, Some (Inl (PeerRejected ''A'' (Some ''Busy''))))"
  proof -
    from s5 have "\<forall>d0 peer e r. delegateTask e (node_id (identity peer)) ''task text'' ''sess-1'' None
            = Inr r \<and> \<not> accepted r \<longrightarrow>
        delegateToPeer d0 peer ''task text'' ''sess-1'' None e
          = (d0, Some (Inl (PeerRejected (node_id (identity peer)) (reason r))))"
      by blast
    from this[rule_format, of "env_reject ''Busy''" "ex_peer ''A'' Active 0"
        "\<lparr>accepted = False, reason = Some ''Busy'', taskId = []\<rparr>" ex_dist]
    show ?thesis by (simp add: ex_attempts)
  qed
  have t: "snd (delegateToPeer ex_dist (ex_peer ''A'' Active 0) ''task text'' ''sess-1'' None
         (env_accept [])) = Some (Inl (DelegationTimedOut ''A'' 300000))"
  proof -
    from s5 have "\<forall>d0 peer e r. delegateTask e (node_id (identity peer)) ''task text'' ''sess-1'' None
            = Inr r \<and> accepted r \<and> events e = [] \<longrightarrow>
        snd (delegateToPeer d0 peer ''task text'' ''sess-1'' None e)
          = Some (Inl (DelegationTimedOut (node_id (identity peer)) (delegationTimeoutMs d0)))"
      by blast
    from this[rule_format, of "env_accept []" "ex_peer ''A'' Active 0"
        "\<lparr>accepted = True, reason = None, taskId = ''task-1''\<rparr>" ex_dist]
    show ?thesis by (simp add: ex_attempts)
  qed
  have x: "snd (delegateToPeer ex_dist (ex_peer ''A'' Active 0) ''task text'' ''sess-1'' None
         (env_accept [CancelAllCalled])) = Some (Inl DelegationCancelled)"
  proof -
    from s5 have "\<forall>d0 peer e r es. delegateTask e (node_id (identity peer)) ''task text'' ''sess-1''
            None = Inr r \<and> accepted r \<and> events e = CancelAllCalled # es \<longrightarrow>
        snd (delegateToPeer d0 peer ''task text'' ''sess-1'' None e) = Some (Inl DelegationCancelled)"
      by blast
    from this[rule_format, of "env_accept [CancelAllCalled]" "ex_peer ''A'' Active 0"
        "\<lparr>accepted = True, reason = None, taskId = ''task-1''\<rparr>" "[]" ex_dist]
    show ?thesis by (simp add: ex_attempts)
  qed
  show ?thesis using a b c r t x by blast
qed

lemma ex_cm_select:
  "strategy ex_cm = capability_match" "tool_allowlist ex_constraints = Some [''shell-exec'', ''browser'']"
  "snd (selectPeers ex_cm (Some ex_constraints) (getActive ex_caps_table)) =
     [ex_caps_peer ''b'' Active [''shell-exec''],
      ex_caps_peer ''c'' Active [''read-file'', ''shell-exec'']]"
  by code_simp+

theorem selectPeers_capability_match_witness:
  "strategy ex_cm = capability_match
   \<and> tool_allowlist ex_constraints = Some [''shell-exec'', ''browser'']
   \<and> selectPeers ex_cm (Some ex_constraints) (getActive ex_caps_table) =
       (ex_cm, [ex_caps_peer ''b'' Active [''shell-exec''],
                ex_caps_peer ''c'' Active [''read-file'', ''shell-exec'']])
   \<and> ex_caps_peer ''d'' Suspected [''shell-exec'']
        \<notin> set (snd (selectPeers ex_cm (Some ex_constraints) (getActive ex_caps_table)))"
proof -
  have ne: "[''shell-exec'', ''browser''] \<noteq> []" by simp
  have st: "status (ex_caps_peer ''d'' Suspected [''shell-exec'']) \<noteq> Active"
    by (simp add: ex_caps_peer_def ex_peer_def)
  note th = selectPeers_capability_match[OF ex_cm_select(1,2) ne,
      of "getActive ex_caps_table" ex_caps_table]
  have a: "selectPeers ex_cm (Some ex_constraints) (getActive ex_caps_table) =
       (ex_cm, [ex_caps_peer ''b'' Active [''shell-exec''],
                ex_caps_peer ''c'' Active [''read-file'', ''shell-exec'']])"
    using th ex_cm_select(3) by (simp add: prod_eq_iff)
  have b: "ex_caps_peer ''d'' Suspected [''shell-exec'']
        \<notin> set (snd (selectPeers ex_cm (Some ex_constraints) (getActive ex_caps_table)))"
    using th st by blast
  show ?thesis using ex_cm_select(1,2) a b by blast
qed

lemma ex_cm_calls:
  "\<not> has_allowlist None"
  "selectPeers ex_cm None ex_actives = (ex_cm, ex_actives)"
  "map fst (map hd
     (distribute_calls ex_cm ''task text'' ''sess-1'' None ex_actives [env_busy, env_busy]))
   = [''A'', ''A'']"
  "roundRobinIndex ex_cm = 0" "length ex_actives = 2" "strategy ex_cm = capability_match"
  by code_simp+

text \<open>
  C2 as stated fails under \<open>capability_match\<close> with no allowlist: with two active peers
  \<open>A\<close> and \<open>B\<close>, \<^verbatim>\<open>selectPeers\<close> leaves the round-robin index at 0 instead of
  advancing it to 1, and two successive \<^verbatim>\<open>distribute\<close> calls both go to \<open>A\<close> first.
\<close>

theorem capability_match_plain_not_rotated_counterexample:
  "strategy ex_cm = capability_match \<and> \<not> has_allowlist None
   \<and> roundRobinIndex (fst (selectPeers ex_cm None ex_actives))
        \<noteq> (roundRobinIndex ex_cm + 1) mod length ex_actives
   \<and> map fst (map hd
         (distribute_calls ex_cm ''task text'' ''sess-1'' None ex_actives [env_busy, env_busy]))
       = [''A'', ''A'']"
proof -
  have "roundRobinIndex (fst (selectPeers ex_cm None ex_actives))
        \<noteq> (roundRobinIndex ex_cm + 1) mod length ex_actives"
    by (simp add: ex_cm_calls(2,4,5))
  then show ?thesis using ex_cm_calls(1,3,6) by blast
qed

lemma ex_rr_calls:
  "strategy ex_rr = round_robin" "0 \<le> maxRetries ex_rr"
  "distinct (map (\<lambda>p. node_id (identity p)) ex_actives)"
  "length [env_busy, env_busy] = length ex_actives"
  "map (\<lambda>tr. fst (hd tr))
     (distribute_calls ex_rr ''task text'' ''sess-1'' None ex_actives [env_busy, env_busy])
   = [''A'', ''B'']"
  "set (map (\<lambda>p. node_id (identity p)) ex_actives) = {''A'', ''B''}"
  "roundRobinIndex (fst (selectPeers ex_rr None ex_actives)) = 1"
  "\<not> has_allowlist None"
  by code_simp+

theorem selectPeers_round_robin_witness:
  "strategy ex_rr = round_robin \<and> ex_actives \<noteq> [] \<and> 0 \<le> maxRetries ex_rr
   \<and> distinct (map (\<lambda>p. node_id (identity p)) ex_actives)
   \<and> roundRobinIndex (fst (selectPeers ex_rr None ex_actives)) = 1
   \<and> distinct (map (\<lambda>tr. fst (hd tr))
        (distribute_calls ex_rr ''task text'' ''sess-1'' None ex_actives [env_busy, env_busy]))
   \<and> set (map (\<lambda>tr. fst (hd tr))
        (distribute_calls ex_rr ''task text'' ''sess-1'' None ex_actives [env_busy, env_busy]))
       = {''A'', ''B''}
   \<and> strategy ex_cm = capability_match \<and> \<not> has_allowlist None
   \<and> selectPeers ex_cm None ex_actives = (ex_cm, ex_actives)"
proof -
  note rr = selectPeers_round_robin[where d=ex_rr and c=None and actives=ex_actives
          and envs="[env_busy, env_busy]" and tt="''task text''" and sid="''sess-1''"]
  note cm = selectPeers_round_robin[where d=ex_cm and c=None and actives=ex_actives
          and envs="[env_busy, env_busy]" and tt="''task text''" and sid="''sess-1''"]
  have h: "strategy ex_rr = round_robin \<and> ex_actives \<noteq> [] \<and> 0 \<le> maxRetries ex_rr
        \<and> distinct (map (\<lambda>p. node_id (identity p)) ex_actives)
        \<and> length [env_busy, env_busy] = length ex_actives"
    using ex_rr_calls(1-4) ex_misc(1) by blast
  have d: "distinct (map (\<lambda>tr. fst (hd tr))
        (distribute_calls ex_rr ''task text'' ''sess-1'' None ex_actives [env_busy, env_busy]))"
    and s: "set (map (\<lambda>tr. fst (hd tr))
        (distribute_calls ex_rr ''task text'' ''sess-1'' None ex_actives [env_busy, env_busy]))
       = set (map (\<lambda>p. node_id (identity p)) ex_actives)"
    using rr h by blast+
  have c: "selectPeers ex_cm None ex_actives = (ex_cm, ex_actives)"
    using cm ex_cm_calls(1,6) by blast
  show ?thesis
    using h d s[unfolded ex_rr_calls(6)] c ex_rr_calls(7) ex_cm_calls(1,6) by blast
qed

lemma ex_two_facts:
  "wf_distributor ex_two"
  "findDelegationByTaskId ex_two ''task-1'' =
     Some \<lparr>d_task_id = ''task-1'', d_peer_node_id = ''A'', d_correlation_id = ''u1'',
           sent_at = 1000, timeout_ms = 300000, promise = 0, timer = 0\<rparr>"
  "findDelegationByTaskId ex_two ''task-9'' = None"
  "activeCount ex_two = 2"
  "task_id ex_result = ''task-1''"
  "length (promises ex_two) = 2"
  "map snd (activeDelegations ex_two) =
     [\<lparr>d_task_id = ''task-1'', d_peer_node_id = ''A'', d_correlation_id = ''u1'',
       sent_at = 1000, timeout_ms = 300000, promise = 0, timer = 0\<rparr>,
      \<lparr>d_task_id = ''task-2'', d_peer_node_id = ''B'', d_correlation_id = ''u2'',
       sent_at = 1001, timeout_ms = 300000, promise = 1, timer = 1\<rparr>]"
  by code_simp+

theorem resolveTask_once_witness:
  "wf_distributor ex_two
   \<and> snd (resolveTask ex_two ex_result) = True
   \<and> activeCount (fst (resolveTask ex_two ex_result)) = 1
   \<and> promises (fst (resolveTask ex_two ex_result)) ! 0 = Fulfilled ex_result
   \<and> snd (resolveTask (fst (resolveTask ex_two ex_result)) ex_result) = False
   \<and> resolveTask ex_two (ex_result\<lparr>task_id := ''task-9''\<rparr>)
       = (ex_two, False)"
  using resolveTask_once[OF ex_two_facts(1), of ex_result]
    resolveTask_once[OF ex_two_facts(1), of "ex_result\<lparr>task_id := ''task-9''\<rparr>"]
  by (simp add: ex_two_facts)

theorem cancelAll_clears_witness:
  "wf_distributor ex_two \<and> activeCount ex_two = 2
   \<and> activeCount (cancelAll ex_two) = 0
   \<and> promises (cancelAll ex_two) ! 0 = Rejected DelegationCancelled
   \<and> promises (cancelAll ex_two) ! 1 = Rejected DelegationCancelled
   \<and> t_state (timers (cancelAll ex_two) ! 1) = Cleared
   \<and> length (promises (cancelAll ex_two)) = 2"
proof -
  note th = cancelAll_clears[OF ex_two_facts(1)]
  have s: "set (map snd (activeDelegations ex_two)) = snd ` set (activeDelegations ex_two)"
    by simp
  have m1: "\<lparr>d_task_id = ''task-1'', d_peer_node_id = ''A'', d_correlation_id = ''u1'',
       sent_at = 1000, timeout_ms = 300000, promise = 0, timer = 0\<rparr>
       \<in> snd ` set (activeDelegations ex_two)"
    unfolding s[symmetric] ex_two_facts(7) by simp
  have m2: "\<lparr>d_task_id = ''task-2'', d_peer_node_id = ''B'', d_correlation_id = ''u2'',
       sent_at = 1001, timeout_ms = 300000, promise = 1, timer = 1\<rparr>
       \<in> snd ` set (activeDelegations ex_two)"
    unfolding s[symmetric] ex_two_facts(7) by simp
  from m1 obtain e1 where e1: "e1 \<in> set (activeDelegations ex_two)" "promise (snd e1) = 0"
    by force
  from m2 obtain e2 where e2: "e2 \<in> set (activeDelegations ex_two)" "promise (snd e2) = 1"
    "timer (snd e2) = 1" by force
  have a: "promises (cancelAll ex_two) ! 0 = Rejected DelegationCancelled"
    using th e1 by metis
  have b: "promises (cancelAll ex_two) ! 1 = Rejected DelegationCancelled
     \<and> t_state (timers (cancelAll ex_two) ! 1) = Cleared"
    using th e2 by metis
  have c: "length (promises (cancelAll ex_two)) = 2"
    using th ex_two_facts(6) by simp
  show ?thesis using th a b c ex_two_facts(1,4) by blast
qed

section \<open>Mesh manager: instances\<close>

lemma ex_mesh_facts:
  "onTaskRequest ex_mesh = Some (\<lambda>req. \<lparr>r_accepted = True, r_reason = None,
                                      r_session_id = Some ''sess-X''\<rparr>)"
  "map_of (expire_nonces 1000 (nonce_window_ms ex_mesh) (seenNonces ex_mesh))
     (nonce (ex_request ''task-1'' ''N1'')) = None"
  "list_all (\<lambda>(req, now). now \<le> (2000::int)) [(ex_request ''task-3'' ''N2'', 1500)]"
  "nonce (ex_request ''task-2'' ''N1'') = nonce (ex_request ''task-1'' ''N1'')"
  "(2000::int) - 1000 < nonce_window_ms ex_mesh"
  "snd (handleTaskRequest ex_mesh (ex_request ''task-1'' ''N1'') 1000)
     = \<lparr>r_accepted = True, r_reason = None, r_session_id = Some ''sess-X''\<rparr>"
  by (simp_all add: ex_mesh_def ex_request_def expire_nonces_def handleTaskRequest_def)

theorem replayed_nonce_rejected_witness:
  "snd (handleTaskRequest ex_mesh (ex_request ''task-1'' ''N1'') 1000)
     = \<lparr>r_accepted = True, r_reason = None, r_session_id = Some ''sess-X''\<rparr>
   \<and> snd (handleTaskRequest
          (handle_all (fst (handleTaskRequest ex_mesh (ex_request ''task-1'' ''N1'') 1000))
             [(ex_request ''task-3'' ''N2'', 1500)])
          (ex_request ''task-2'' ''N1'') 2000)
     = \<lparr>r_accepted = False, r_reason = Some ''Replayed nonce'', r_session_id = None\<rparr>"
  using replayed_nonce_rejected[OF ex_mesh_facts(1-5)] ex_mesh_facts(6) by blast

end
